theory Spec2Isabelle
  imports Main
begin

section \<open>Scalars: the values of a C++ double\<close>

text \<open>
  Every finite IEEE 754 binary64 value is an integer multiple of the least subnormal
  \<open>2^-1074\<close>. \<open>Fin k\<close> is the finite double of value \<open>k * 2^-1074\<close>; the other
  constructors are the two infinities and not-a-number. The two zeros compare equal
  and are both \<open>Fin 0\<close>. The type is a superset of the binary64 values (not every
  integer \<open>k\<close> has a 53-bit significand), so a statement about all of its values
  covers every double.
\<close>

datatype double = NaN | NegInf | Fin int | PosInf

text \<open>\<open>std::numeric_limits<double>::max()\<close>, that is \<open>(2^53 - 1) * 2^971\<close>, in units of \<open>2^-1074\<close>.\<close>

definition DBL_MAX_units :: int where
  "DBL_MAX_units = (2 ^ 53 - 1) * 2 ^ 2045"

definition numeric_limits_max :: double where
  "numeric_limits_max = Fin DBL_MAX_units"

definition numeric_limits_infinity :: double where
  "numeric_limits_infinity = PosInf"

text \<open>An integer-valued double literal such as \<open>1.0\<close> or \<open>-2\<close> (exact up to \<open>2^53\<close>).\<close>

definition dbl :: "int \<Rightarrow> double" where
  "dbl n = Fin (n * 2 ^ 1074)"

text \<open>The comparisons \<open><\<close> and \<open><=\<close> of doubles: false whenever an operand is NaN.\<close>

fun dless :: "double \<Rightarrow> double \<Rightarrow> bool" where
  "dless NaN _ = False"
| "dless _ NaN = False"
| "dless NegInf NegInf = False"
| "dless NegInf _ = True"
| "dless (Fin a) NegInf = False"
| "dless (Fin a) (Fin b) = (a < b)"
| "dless (Fin a) PosInf = True"
| "dless PosInf _ = False"

fun dle :: "double \<Rightarrow> double \<Rightarrow> bool" where
  "dle NaN _ = False"
| "dle _ NaN = False"
| "dle NegInf _ = True"
| "dle (Fin a) NegInf = False"
| "dle (Fin a) (Fin b) = (a \<le> b)"
| "dle (Fin a) PosInf = True"
| "dle PosInf PosInf = True"
| "dle PosInf _ = False"

text \<open>\<open>a > b\<close> is \<open>b < a\<close>.\<close>

definition dgreater :: "double \<Rightarrow> double \<Rightarrow> bool" where
  "dgreater a b = dless b a"

text \<open>\<open>std::abs\<close> and unary minus.\<close>

fun std_abs :: "double \<Rightarrow> double" where
  "std_abs NaN = NaN"
| "std_abs NegInf = PosInf"
| "std_abs (Fin k) = Fin \<bar>k\<bar>"
| "std_abs PosInf = PosInf"

fun dneg :: "double \<Rightarrow> double" where
  "dneg NaN = NaN"
| "dneg NegInf = PosInf"
| "dneg (Fin k) = Fin (- k)"
| "dneg PosInf = NegInf"

text \<open>\<open>std::min(a, b)\<close> is \<open>(b < a) ? b : a\<close>.\<close>

definition std_min :: "double \<Rightarrow> double \<Rightarrow> double" where
  "std_min a b = (if dless b a then b else a)"

text \<open>
  Rounding of an exact result (in units of \<open>2^-1074\<close>) to binary64, to nearest with ties
  to even: a magnitude of more than 53 bits keeps its leading 53 bits, rounded; a
  rounded magnitude beyond \<open>DBL_MAX\<close> overflows to an infinity.
\<close>

fun bits :: "nat \<Rightarrow> nat" where
  "bits n = (if n = 0 then 0 else Suc (bits (n div 2)))"

declare bits.simps [simp del]

definition round_to_double :: "int \<Rightarrow> double" where
  "round_to_double k =
     (let a = nat \<bar>k\<bar>; n = bits a in
      if n \<le> 53 then Fin k
      else
        let s = n - 53;
            q = a div 2 ^ s;
            r = a mod 2 ^ s;
            h = 2 ^ (s - 1);
            q' = (if h < r \<or> (r = h \<and> odd q) then q + 1 else q);
            v = int (q' * 2 ^ s)
        in if DBL_MAX_units < v then (if k < 0 then NegInf else PosInf)
           else Fin (if k < 0 then - v else v))"

text \<open>Subtraction of doubles.\<close>

fun dsub :: "double \<Rightarrow> double \<Rightarrow> double" where
  "dsub NaN _ = NaN"
| "dsub _ NaN = NaN"
| "dsub PosInf PosInf = NaN"
| "dsub NegInf NegInf = NaN"
| "dsub PosInf _ = PosInf"
| "dsub NegInf _ = NegInf"
| "dsub (Fin a) PosInf = NegInf"
| "dsub (Fin a) NegInf = PosInf"
| "dsub (Fin a) (Fin b) = round_to_double (a - b)"

section \<open>Errors and assertions\<close>

text \<open>
  A failed \<open>ALTRO_ASSERT\<close> ends the call with its message; an index outside a vector
  or matrix (\<open>std::vector::at\<close>, Eigen's checked coefficient access) ends it as well.
\<close>

datatype error = AssertionFailure string | IndexOutOfRange | LengthError

text \<open>
  Modelled from the spec: the macro \<open>ALTRO_ASSERT\<close> of \<open>altro/utils/assert.hpp\<close>, which
  is not among the sources. Configuration errors fail fast and are raised immediately
  to the caller (spec, section 7); this is the behaviour with assertions active
  (\<open>utils::AssertionsActive()\<close> in the tests).
\<close>

definition ALTRO_ASSERT :: "bool \<Rightarrow> string \<Rightarrow> (error + 'a) \<Rightarrow> error + 'a" where
  "ALTRO_ASSERT expr msg rest = (if expr then rest else Inl (AssertionFailure msg))"

section \<open>Dense matrices\<close>

text \<open>
  An Eigen \<open>MatrixXd\<close>: its dimensions and its coefficients in column-major order,
  coefficient \<open>(i, j)\<close> at position \<open>i + j * rows\<close>.
\<close>

record MatrixXd =
  mat_rows :: nat
  mat_cols :: nat
  mat_data :: "double list"

definition coeff :: "MatrixXd \<Rightarrow> nat \<Rightarrow> nat \<Rightarrow> double" where
  "coeff A i j = mat_data A ! (i + j * mat_rows A)"

definition setCoeff :: "MatrixXd \<Rightarrow> nat \<Rightarrow> nat \<Rightarrow> double \<Rightarrow> error + MatrixXd" where
  "setCoeff A i j v =
     (if i < mat_rows A \<and> j < mat_cols A
      then Inr (A\<lparr>mat_data := (mat_data A)[i + j * mat_rows A := v]\<rparr>)
      else Inl IndexOutOfRange)"

definition setZero :: "MatrixXd \<Rightarrow> MatrixXd" where
  "setZero A = A\<lparr>mat_data := replicate (mat_rows A * mat_cols A) (Fin 0)\<rparr>"

definition setIdentity :: "MatrixXd \<Rightarrow> MatrixXd" where
  "setIdentity A =
     A\<lparr>mat_data := map (\<lambda>p. if p mod mat_rows A = p div mat_rows A then dbl 1 else Fin 0)
                        [0 ..< mat_rows A * mat_cols A]\<rparr>"

definition wf_matrix :: "MatrixXd \<Rightarrow> bool" where
  "wf_matrix A = (length (mat_data A) = mat_rows A * mat_cols A)"

section \<open>Cones\<close>

datatype cone = ZeroCone | IdentityCone | NegativeOrthant

text \<open>The member type \<open>DualCone\<close> of each cone class.\<close>

fun DualCone :: "cone \<Rightarrow> cone" where
  "DualCone ZeroCone = IdentityCone"
| "DualCone IdentityCone = ZeroCone"
| "DualCone NegativeOrthant = NegativeOrthant"

subsection \<open>ZeroCone\<close>

definition ZeroCone_Projection :: "double list \<Rightarrow> double list \<Rightarrow> error + double list" where
  "ZeroCone_Projection x x_proj =
     ALTRO_ASSERT (length x = length x_proj) ''x and x_proj must be the same size''
       (Inr (replicate (length x_proj) (Fin 0)))"

definition ZeroCone_Jacobian :: "double list \<Rightarrow> MatrixXd \<Rightarrow> error + MatrixXd" where
  "ZeroCone_Jacobian x jac = Inr (setZero jac)"

definition ZeroCone_Hessian :: "double list \<Rightarrow> double list \<Rightarrow> MatrixXd \<Rightarrow> error + MatrixXd" where
  "ZeroCone_Hessian x b hess =
     ALTRO_ASSERT (mat_rows hess = mat_cols hess) ''Hessian must be square.''
       (ALTRO_ASSERT (length x = length b) ''x and b must be the same size.''
         (Inr (setZero hess)))"

subsection \<open>IdentityCone\<close>

definition IdentityCone_Projection :: "double list \<Rightarrow> double list \<Rightarrow> error + double list" where
  "IdentityCone_Projection x x_proj =
     ALTRO_ASSERT (length x = length x_proj) ''x and x_proj must be the same size''
       (Inr x)"

definition IdentityCone_Jacobian :: "double list \<Rightarrow> MatrixXd \<Rightarrow> error + MatrixXd" where
  "IdentityCone_Jacobian x jac =
     ALTRO_ASSERT (mat_rows jac = mat_cols jac) ''Jacobian must be square.''
       (Inr (setIdentity jac))"

definition IdentityCone_Hessian :: "double list \<Rightarrow> double list \<Rightarrow> MatrixXd \<Rightarrow> error + MatrixXd" where
  "IdentityCone_Hessian x b hess =
     ALTRO_ASSERT (mat_rows hess = mat_cols hess) ''Hessian must be square.''
       (ALTRO_ASSERT (length x = length b) ''x and b must be the same size.''
         (Inr (setZero hess)))"

subsection \<open>NegativeOrthant\<close>

text \<open>The loop \<open>for (int i = 0; i < x.size(); ++i) x_proj(i) = std::min(0.0, x(i));\<close>\<close>

function NegativeOrthant_Projection_loop ::
    "nat \<Rightarrow> double list \<Rightarrow> double list \<Rightarrow> error + double list" where
  "NegativeOrthant_Projection_loop i x x_proj =
     (if i < length x
      then (if i < length x_proj
            then NegativeOrthant_Projection_loop (Suc i) x (x_proj[i := std_min (Fin 0) (x ! i)])
            else Inl IndexOutOfRange)
      else Inr x_proj)"
  by pat_completeness auto
termination
  by (relation "measure (\<lambda>(i, x, x_proj). length x - i)") auto

declare NegativeOrthant_Projection_loop.simps [simp del]

definition NegativeOrthant_Projection :: "double list \<Rightarrow> double list \<Rightarrow> error + double list" where
  "NegativeOrthant_Projection x x_proj =
     ALTRO_ASSERT (length x = length x_proj) ''x and x_proj must be the same size''
       (NegativeOrthant_Projection_loop 0 x x_proj)"

text \<open>The loop \<open>for (int i = 0; i < x.size(); ++i) jac(i, i) = x(i) > 0 ? 0 : 1;\<close>\<close>

function NegativeOrthant_Jacobian_loop ::
    "nat \<Rightarrow> double list \<Rightarrow> MatrixXd \<Rightarrow> error + MatrixXd" where
  "NegativeOrthant_Jacobian_loop i x jac =
     (if i < length x
      then (case setCoeff jac i i (if dgreater (x ! i) (Fin 0) then Fin 0 else dbl 1) of
              Inl e \<Rightarrow> Inl e
            | Inr jac' \<Rightarrow> NegativeOrthant_Jacobian_loop (Suc i) x jac')
      else Inr jac)"
  by pat_completeness auto
termination
  by (relation "measure (\<lambda>(i, x, jac). length x - i)") auto

declare NegativeOrthant_Jacobian_loop.simps [simp del]

definition NegativeOrthant_Jacobian :: "double list \<Rightarrow> MatrixXd \<Rightarrow> error + MatrixXd" where
  "NegativeOrthant_Jacobian x jac =
     ALTRO_ASSERT (mat_rows jac = mat_cols jac) ''Jacobian must be square.''
       (NegativeOrthant_Jacobian_loop 0 x jac)"

definition NegativeOrthant_Hessian ::
    "double list \<Rightarrow> double list \<Rightarrow> MatrixXd \<Rightarrow> error + MatrixXd" where
  "NegativeOrthant_Hessian x b hess =
     ALTRO_ASSERT (mat_rows hess = mat_cols hess) ''Hessian must be square.''
       (ALTRO_ASSERT (length x = length b) ''x and b must be the same size.''
         (Inr (setZero hess)))"

subsection \<open>Dispatch on the cone\<close>

fun Projection :: "cone \<Rightarrow> double list \<Rightarrow> double list \<Rightarrow> error + double list" where
  "Projection ZeroCone = ZeroCone_Projection"
| "Projection IdentityCone = IdentityCone_Projection"
| "Projection NegativeOrthant = NegativeOrthant_Projection"

section \<open>Example constraints\<close>

subsection \<open>GoalConstraint\<close>

record GoalConstraint =
  xf :: "double list"

definition GoalConstraint_OutputDimension :: "GoalConstraint \<Rightarrow> int" where
  "GoalConstraint_OutputDimension g = int (length (xf g))"

subsection \<open>ControlBound\<close>

text \<open>
  The members \<open>m_\<close>, \<open>lower_bound_\<close>, \<open>upper_bound_\<close>, \<open>index_lower_bound_\<close> and
  \<open>index_upper_bound_\<close> are the fields below (a name cannot end with an underscore
  here). The sizes of the vectors are far below \<open>2^31\<close>, so the conversions between
  \<open>size_t\<close> and \<open>int\<close> (the member \<open>m_\<close>, the result of \<open>OutputDimension\<close>) keep
  the value.
\<close>

record ControlBound =
  m_cb :: int
  lower_bound :: "double list"
  upper_bound :: "double list"
  index_lower_bound :: "nat list"
  index_upper_bound :: "nat list"

text \<open>
  \<open>GetFiniteIndices\<close>: after \<open>index->clear()\<close>, the loop appends every \<open>i\<close> with
  \<open>std::abs(bound[i]) < std::numeric_limits<double>::max()\<close>.
\<close>

function GetFiniteIndices_loop :: "nat \<Rightarrow> double list \<Rightarrow> nat list \<Rightarrow> nat list" where
  "GetFiniteIndices_loop i bound index =
     (if i < length bound
      then GetFiniteIndices_loop (Suc i) bound
             (if dless (std_abs (bound ! i)) numeric_limits_max then index @ [i] else index)
      else index)"
  by pat_completeness auto
termination
  by (relation "measure (\<lambda>(i, bound, index). length bound - i)") auto

declare GetFiniteIndices_loop.simps [simp del]

definition GetFiniteIndices :: "double list \<Rightarrow> nat list" where
  "GetFiniteIndices bound = GetFiniteIndices_loop 0 bound []"

text \<open>
  \<open>ValidateBounds\<close>: the loop over \<open>i < m_\<close> asserts \<open>lower_bound_[i] <= upper_bound_[i]\<close>.
  An index outside either vector is reported as \<open>IndexOutOfRange\<close>.
\<close>

function ValidateBounds_loop :: "nat \<Rightarrow> ControlBound \<Rightarrow> error + ControlBound" where
  "ValidateBounds_loop i cb =
     (if int i < m_cb cb
      then (if i < length (lower_bound cb) \<and> i < length (upper_bound cb)
            then ALTRO_ASSERT (dle (lower_bound cb ! i) (upper_bound cb ! i))
                   ''Lower bound isn't less than the upper bound.''
                   (ValidateBounds_loop (Suc i) cb)
            else Inl IndexOutOfRange)
      else Inr cb)"
  by pat_completeness auto
termination
  by (relation "measure (\<lambda>(i, cb). nat (m_cb cb) - i)") auto

declare ValidateBounds_loop.simps [simp del]

definition ValidateBounds :: "ControlBound \<Rightarrow> error + ControlBound" where
  "ValidateBounds cb = ValidateBounds_loop 0 cb"

text \<open>
  The constructor \<open>ControlBound(const int m)\<close>: all bounds infinite, no finite index.
  A negative \<open>m\<close> makes \<open>std::vector\<close> throw.
\<close>

definition ControlBound_dim :: "int \<Rightarrow> error + ControlBound" where
  "ControlBound_dim m =
     (if m < 0 then Inl LengthError
      else Inr \<lparr>m_cb = m,
                lower_bound = replicate (nat m) (dneg numeric_limits_infinity),
                upper_bound = replicate (nat m) numeric_limits_infinity,
                index_lower_bound = [],
                index_upper_bound = []\<rparr>)"

text \<open>The constructor \<open>ControlBound(lb, ub)\<close>.\<close>

definition ControlBound_bounds :: "double list \<Rightarrow> double list \<Rightarrow> error + ControlBound" where
  "ControlBound_bounds lb ub =
     (let cb = \<lparr>m_cb = int (length lb), lower_bound = lb, upper_bound = ub,
                index_lower_bound = [], index_upper_bound = []\<rparr>
      in ALTRO_ASSERT (length lb = length ub)
           ''Upper and lower bounds must have the same length.''
           (ALTRO_ASSERT (0 < length lb) ''Cannot pass in empty bounds.''
             (let cb1 = cb\<lparr>index_upper_bound := GetFiniteIndices (upper_bound cb)\<rparr>;
                  cb2 = cb1\<lparr>index_lower_bound := GetFiniteIndices (lower_bound cb1)\<rparr>
              in ValidateBounds cb2)))"

definition SetUpperBound :: "ControlBound \<Rightarrow> double list \<Rightarrow> error + ControlBound" where
  "SetUpperBound cb ub =
     ALTRO_ASSERT (int (length ub) = m_cb cb)
       ''Inconsistent control dimension when setting upper bound.''
       (let cb1 = cb\<lparr>upper_bound := ub\<rparr>;
            cb2 = cb1\<lparr>index_upper_bound := GetFiniteIndices (upper_bound cb1)\<rparr>
        in ValidateBounds cb2)"

definition SetLowerBound :: "ControlBound \<Rightarrow> double list \<Rightarrow> error + ControlBound" where
  "SetLowerBound cb lb =
     ALTRO_ASSERT (int (length lb) = m_cb cb)
       ''Inconsistent control dimension when setting lower bound.''
       (let cb1 = cb\<lparr>lower_bound := lb\<rparr>;
            cb2 = cb1\<lparr>index_lower_bound := GetFiniteIndices (lower_bound cb1)\<rparr>
        in ValidateBounds cb2)"

definition ControlBound_ControlDimension :: "ControlBound \<Rightarrow> int" where
  "ControlBound_ControlDimension cb = m_cb cb"

definition ControlBound_OutputDimension :: "ControlBound \<Rightarrow> int" where
  "ControlBound_OutputDimension cb = int (length (index_lower_bound cb) + length (index_upper_bound cb))"

text \<open>
  \<open>Evaluate\<close>: the first loop writes \<open>c(i) = lower_bound_.at(j) - u(j)\<close> for
  \<open>j = index_lower_bound_[i]\<close>, the second \<open>c(i + offset) = u(j) - upper_bound_.at(j)\<close>
  for \<open>j = index_upper_bound_[i]\<close>, with \<open>offset = index_lower_bound_.size()\<close>.
\<close>

function Evaluate_lower_loop ::
    "nat \<Rightarrow> ControlBound \<Rightarrow> double list \<Rightarrow> double list \<Rightarrow> error + double list" where
  "Evaluate_lower_loop i cb u c =
     (if i < length (index_lower_bound cb)
      then (let j = index_lower_bound cb ! i in
            if j < length (lower_bound cb) \<and> j < length u \<and> i < length c
            then Evaluate_lower_loop (Suc i) cb u (c[i := dsub (lower_bound cb ! j) (u ! j)])
            else Inl IndexOutOfRange)
      else Inr c)"
  by pat_completeness auto
termination
  by (relation "measure (\<lambda>(i, cb, u, c). length (index_lower_bound cb) - i)") auto

declare Evaluate_lower_loop.simps [simp del]

function Evaluate_upper_loop ::
    "nat \<Rightarrow> nat \<Rightarrow> ControlBound \<Rightarrow> double list \<Rightarrow> double list \<Rightarrow> error + double list" where
  "Evaluate_upper_loop i offset cb u c =
     (if i < length (index_upper_bound cb)
      then (let j = index_upper_bound cb ! i in
            if j < length (upper_bound cb) \<and> j < length u \<and> i + offset < length c
            then Evaluate_upper_loop (Suc i) offset cb u
                   (c[i + offset := dsub (u ! j) (upper_bound cb ! j)])
            else Inl IndexOutOfRange)
      else Inr c)"
  by pat_completeness auto
termination
  by (relation "measure (\<lambda>(i, offset, cb, u, c). length (index_upper_bound cb) - i)") auto

declare Evaluate_upper_loop.simps [simp del]

definition ControlBound_Evaluate ::
    "ControlBound \<Rightarrow> double list \<Rightarrow> double list \<Rightarrow> error + double list" where
  "ControlBound_Evaluate cb u c =
     ALTRO_ASSERT (int (length u) = m_cb cb)
       ''Inconsistent control dimension when evaluating control bound.''
       (case Evaluate_lower_loop 0 cb u c of
          Inl e \<Rightarrow> Inl e
        | Inr c1 \<Rightarrow> Evaluate_upper_loop 0 (length (index_lower_bound cb)) cb u c1)"

text \<open>
  The ControlBound objects a program can hold: built by one of the two constructors and
  changed by the two setters, each call having returned.
\<close>

inductive ControlBound_reachable :: "ControlBound \<Rightarrow> bool" where
  from_dim: "ControlBound_dim m = Inr cb \<Longrightarrow> ControlBound_reachable cb"
| from_bounds: "ControlBound_bounds lb ub = Inr cb \<Longrightarrow> ControlBound_reachable cb"
| set_upper: "ControlBound_reachable cb \<Longrightarrow> SetUpperBound cb ub = Inr cb' \<Longrightarrow>
              ControlBound_reachable cb'"
| set_lower: "ControlBound_reachable cb \<Longrightarrow> SetLowerBound cb lb = Inr cb' \<Longrightarrow>
              ControlBound_reachable cb'"

text \<open>
  The wording of the specification: a bound is infinite when its magnitude is at least
  the largest finite double, and the output has one row per bound that is not.
\<close>

definition bound_is_infinite :: "double \<Rightarrow> bool" where
  "bound_is_infinite b = dle numeric_limits_max (std_abs b)"

definition spec_OutputDimension :: "double list \<Rightarrow> double list \<Rightarrow> int" where
  "spec_OutputDimension lb ub =
     int (length (filter (\<lambda>b. \<not> bound_is_infinite b) lb) +
          length (filter (\<lambda>b. \<not> bound_is_infinite b) ub))"

text \<open>A vector lies in a cone when the projection onto the cone leaves it as it is.\<close>

definition cone_member :: "cone \<Rightarrow> double list \<Rightarrow> bool" where
  "cone_member K y = (Projection K y y = Inr y)"

section \<open>Problem\<close>

text \<open>
  Modelled from the spec: the class \<open>Problem\<close> of \<open>altro/problem/problem.hpp\<close>, which is
  not among the sources (only its tests in \<open>problem_test.cpp\<close> are). Per knot
  \<open>k\<close> in \<open>[0, N]\<close> it holds a cost handle, a dynamics handle (for \<open>k < N\<close>) and the
  registered constraints; a null handle is \<open>None\<close>. Of a dynamics model only the
  declared dimensions matter here; the cost type is left open.
\<close>

record Model =
  StateDimension :: int
  ControlDimension :: int

datatype constraint = Equality GoalConstraint | Inequality ControlBound

fun OutputDimension :: "constraint \<Rightarrow> int" where
  "OutputDimension (Equality g) = GoalConstraint_OutputDimension g"
| "OutputDimension (Inequality cb) = ControlBound_OutputDimension cb"

text \<open>
  A \<open>ConstraintPtr<ConType>\<close>: the constraint kind is part of the handle's type, so a
  null handle has a kind as well.
\<close>

datatype ConstraintPtr = EqualityPtr "GoalConstraint option" | InequalityPtr "ControlBound option"

fun deref :: "ConstraintPtr \<Rightarrow> constraint option" where
  "deref (EqualityPtr None) = None"
| "deref (EqualityPtr (Some g)) = Some (Equality g)"
| "deref (InequalityPtr None) = None"
| "deref (InequalityPtr (Some cb)) = Some (Inequality cb)"

record 'c Problem =
  NumSegments :: nat
  costfuns :: "nat \<Rightarrow> 'c option"
  models :: "nat \<Rightarrow> Model option"
  constraints :: "nat \<Rightarrow> constraint list"
  initial_state :: "double list"

text \<open>Modelled from the spec: \<open>Problem(N)\<close>, with nothing set (test \<open>Initialization\<close>).\<close>

definition Problem_new :: "nat \<Rightarrow> 'c Problem" where
  "Problem_new N =
     \<lparr>NumSegments = N, costfuns = (\<lambda>k. None), models = (\<lambda>k. None),
      constraints = (\<lambda>k. []), initial_state = []\<rparr>"

text \<open>
  Modelled from the spec: \<open>SetDynamics(model, k)\<close>, \<open>k\<close> in \<open>[0, N-1]\<close>, rejects \<open>k = N\<close>;
  \<open>SetCostFunction(cost, k)\<close>, \<open>k\<close> in \<open>[0, N]\<close>; an invalid knot index and a null handle
  are configuration faults (spec, section 4.3).
\<close>

definition SetDynamics :: "Model option \<Rightarrow> int \<Rightarrow> 'c Problem \<Rightarrow> error + 'c Problem" where
  "SetDynamics model k p =
     ALTRO_ASSERT (model \<noteq> None) ''null handle''
       (ALTRO_ASSERT (0 \<le> k \<and> k < int (NumSegments p)) ''invalid knot index''
         (Inr (p\<lparr>models := (models p)(nat k := model)\<rparr>)))"

definition SetCostFunction :: "'c option \<Rightarrow> int \<Rightarrow> 'c Problem \<Rightarrow> error + 'c Problem" where
  "SetCostFunction cost k p =
     ALTRO_ASSERT (cost \<noteq> None) ''null handle''
       (ALTRO_ASSERT (0 \<le> k \<and> k \<le> int (NumSegments p)) ''invalid knot index''
         (Inr (p\<lparr>costfuns := (costfuns p)(nat k := cost)\<rparr>)))"

text \<open>Modelled from the spec: \<open>SetInitialState(x0)\<close> stores the vector, whatever its length.\<close>

definition SetInitialState :: "double list \<Rightarrow> 'c Problem \<Rightarrow> 'c Problem" where
  "SetInitialState x0 p = p\<lparr>initial_state := x0\<rparr>"

text \<open>
  Modelled from the spec: \<open>SetConstraint(con, k)\<close>, \<open>k\<close> in \<open>[0, N]\<close>, rejects null (spec,
  section 4.3). The death tests of \<open>problem_test.cpp\<close> give the two assertion messages:
  a null handle dies with \<open>provide a valid constraint pointer\<close>, a constraint of output
  dimension zero with \<open>length greater than zero\<close>.
\<close>

definition SetConstraint :: "ConstraintPtr \<Rightarrow> int \<Rightarrow> 'c Problem \<Rightarrow> error + 'c Problem" where
  "SetConstraint con k p =
     (case deref con of
        None \<Rightarrow> Inl (AssertionFailure ''provide a valid constraint pointer'')
      | Some c \<Rightarrow>
          ALTRO_ASSERT (0 \<le> k \<and> k \<le> int (NumSegments p)) ''invalid knot index''
            (ALTRO_ASSERT (0 < OutputDimension c) ''length greater than zero''
              (Inr (p\<lparr>constraints := (constraints p)(nat k := constraints p (nat k) @ [c])\<rparr>))))"



text \<open>
  Modelled from the spec: \<open>IsFullyDefined()\<close> (spec, section 3): every knot below \<open>N\<close>
  has a dynamics and a cost, knot \<open>N\<close> has a cost, and the initial state has the state
  dimension of the dynamics at knot 0. It returns a truth value on every Problem.
\<close>

fun knots_defined :: "nat \<Rightarrow> 'c Problem \<Rightarrow> bool" where
  "knots_defined 0 p = True"
| "knots_defined (Suc k) p = (knots_defined k p \<and> models p k \<noteq> None \<and> costfuns p k \<noteq> None)"

definition IsFullyDefined :: "'c Problem \<Rightarrow> bool" where
  "IsFullyDefined p =
     (knots_defined (NumSegments p) p \<and>
      costfuns p (NumSegments p) \<noteq> None \<and>
      (case models p 0 of
         None \<Rightarrow> False
       | Some model \<Rightarrow> int (length (initial_state p)) = StateDimension model))"



text \<open>Sequencing of calls that may fail: the first failure ends the sequence.\<close>

definition and_then :: "error + 'a \<Rightarrow> ('a \<Rightarrow> error + 'b) \<Rightarrow> error + 'b" where
  "and_then r f = (case r of Inl e \<Rightarrow> Inl e | Inr a \<Rightarrow> f a)"

text \<open>
  The calls of the test \<open>FullyDefined\<close> on a Problem of two segments: a dynamics of six
  states at both knots below \<open>N\<close>, then a cost at every knot.
\<close>

definition FullyDefined_setup :: "error + unit Problem" where
  "FullyDefined_setup =
     (let model = Some \<lparr>StateDimension = 6, ControlDimension = 2\<rparr>; cost = Some () in
      and_then (SetDynamics model 0 (Problem_new 2)) (\<lambda>p.
      and_then (SetDynamics model 1 p) (\<lambda>p.
      and_then (SetCostFunction cost 0 p) (\<lambda>p.
      and_then (SetCostFunction cost 1 p) (\<lambda>p.
      SetCostFunction cost 2 p)))))"


definition test_ubnd :: ControlBound where
  "test_ubnd = \<lparr>m_cb = 2, lower_bound = [dbl (- 2), dbl (- 3)], upper_bound = [dbl 2, dbl 3],
                index_lower_bound = [0, 1], index_upper_bound = [0, 1]\<rparr>"

text \<open>
  What the constructors and setters of ControlBound establish: the dimension and the two
  bound vectors agree in length, the index vectors are the finite indices of the
  bounds, and every lower bound is at most its upper bound.
\<close>

definition ControlBound_valid :: "ControlBound \<Rightarrow> bool" where
  "ControlBound_valid cb =
     (m_cb cb = int (length (lower_bound cb)) \<and>
      length (upper_bound cb) = length (lower_bound cb) \<and>
      index_lower_bound cb = GetFiniteIndices (lower_bound cb) \<and>
      index_upper_bound cb = GetFiniteIndices (upper_bound cb) \<and>
      (\<forall>i < length (lower_bound cb). dle (lower_bound cb ! i) (upper_bound cb ! i)))"

section \<open>Double arithmetic\<close>

lemma bits_pos: "0 < n \<Longrightarrow> 2 ^ (bits n - 1) \<le> n"
proof (induction n rule: bits.induct)
  case (1 n)
  show ?case
  proof (cases "n div 2 = 0")
    case True
    then have "bits (n div 2) = 0" by (simp add: bits.simps)
    with "1.prems" show ?thesis by (subst bits.simps) simp
  next
    case False
    then have pos: "0 < n div 2" by simp
    from "1.prems" have n0: "n \<noteq> 0" by simp
    have b: "bits n = Suc (bits (n div 2))"
      using n0 by (subst bits.simps) simp
    have bp: "0 < bits (n div 2)"
      using False by (subst bits.simps) simp
    have "(2::nat) ^ (bits n - 1) = 2 * 2 ^ (bits (n div 2) - 1)"
      using b bp by (cases "bits (n div 2)") simp_all
    also have "\<dots> \<le> 2 * (n div 2)"
      using "1.IH" [OF n0 pos] by simp
    also have "\<dots> \<le> n" by simp
    finally show ?thesis .
  qed
qed

lemma round_to_double_le_zero: "dle (round_to_double k) (Fin 0) \<longleftrightarrow> k \<le> 0"
proof (cases "bits (nat \<bar>k\<bar>) \<le> 53")
  case True
  then show ?thesis by (simp add: round_to_double_def)
next
  case False
  define a where "a = nat \<bar>k\<bar>"
  define s where "s = bits a - 53"
  define q where "q = a div 2 ^ s"
  from False have big: "53 < bits a" by (simp add: a_def)
  then have apos: "0 < a" by (cases "a = 0") (simp_all add: bits.simps)
  have "(2::nat) ^ s \<le> 2 ^ (bits a - 1)"
    unfolding s_def by (rule power_increasing) simp_all
  also have "\<dots> \<le> a" using apos by (rule bits_pos)
  finally have "1 \<le> q" unfolding q_def by (simp add: Suc_le_eq div_greater_zero_iff)
  then have qpos: "0 < q * 2 ^ s" "0 < (q + 1) * 2 ^ s" by simp_all
  from apos have kn: "k \<noteq> 0" by (auto simp: a_def)
  show ?thesis
    using big kn qpos unfolding round_to_double_def Let_def a_def [symmetric] s_def [symmetric] q_def [symmetric]
    by (auto simp del: of_nat_mult of_nat_add)
qed

lemma dsub_Fin_left_le_zero: "dle (dsub (Fin k) b) (Fin 0) \<longleftrightarrow> dle (Fin k) b"
  by (cases b) (simp_all add: round_to_double_le_zero)

lemma dsub_Fin_right_le_zero: "dle (dsub a (Fin k)) (Fin 0) \<longleftrightarrow> dle a (Fin k)"
  by (cases a) (simp_all add: round_to_double_le_zero)

lemma finite_bound_Fin: "dless (std_abs b) numeric_limits_max \<Longrightarrow> \<exists>k. b = Fin k"
  by (cases b) (simp_all add: numeric_limits_max_def)

lemma std_min_fixed_iff: "std_min (Fin 0) y = y \<longleftrightarrow> dle y (Fin 0)"
  by (cases y) (auto simp: std_min_def)

lemma bits_mult_pow: "0 < n \<Longrightarrow> bits (n * 2 ^ e) = bits n + e"
proof (induction e)
  case 0
  then show ?case by simp
next
  case (Suc e)
  have "bits (n * 2 ^ Suc e) = Suc (bits (n * 2 ^ Suc e div 2))"
    using Suc.prems by (subst bits.simps) simp
  also have "n * 2 ^ Suc e div 2 = n * 2 ^ e" by simp
  finally show ?case using Suc by simp
qed

lemma bits_le_iff: "bits n \<le> w \<longleftrightarrow> n < 2 ^ w"
proof (induction n arbitrary: w rule: bits.induct)
  case (1 n)
  show ?case
  proof (cases "n = 0")
    case True
    then show ?thesis by (simp add: bits.simps)
  next
    case False
    then have b: "bits n = Suc (bits (n div 2))" by (subst bits.simps) simp
    show ?thesis
    proof (cases w)
      case 0
      with b False show ?thesis by simp
    next
      case (Suc w')
      have "bits n \<le> w \<longleftrightarrow> bits (n div 2) \<le> w'" using b Suc by simp
      also have "\<dots> \<longleftrightarrow> n div 2 < 2 ^ w'" using "1.IH" [OF False] .
      also have "\<dots> \<longleftrightarrow> n < 2 ^ w" using Suc by auto
      finally show ?thesis .
    qed
  qed
qed

lemma round_to_double_small: "\<bar>k\<bar> < 2 ^ 53 \<Longrightarrow> round_to_double k = Fin k"
proof -
  assume "\<bar>k\<bar> < 2 ^ 53"
  then have "nat \<bar>k\<bar> < 2 ^ 53" by (simp add: nat_less_iff)
  then have "bits (nat \<bar>k\<bar>) \<le> 53" by (simp only: bits_le_iff)
  then show ?thesis by (simp add: round_to_double_def)
qed

lemma round_to_double_exact:
  assumes m: "\<bar>m\<bar> < 2 ^ 53" and r: "\<bar>m\<bar> * 2 ^ e \<le> DBL_MAX_units"
  shows "round_to_double (m * 2 ^ e) = Fin (m * 2 ^ e)"
proof (cases "m = 0")
  case True
  then show ?thesis by (simp add: round_to_double_small)
next
  case False
  define a where "a = nat \<bar>m\<bar>"
  from False have apos: "0 < a" by (simp add: a_def)
  have abs_eq: "nat \<bar>m * 2 ^ e\<bar> = a * 2 ^ e"
    by (simp add: a_def abs_mult nat_mult_distrib nat_power_eq)
  have n: "bits (a * 2 ^ e) = bits a + e" using apos by (rule bits_mult_pow)
  from m have "a < 2 ^ 53" by (simp add: a_def nat_less_iff)
  then have b53: "bits a \<le> 53" by (simp only: bits_le_iff)
  show ?thesis
  proof (cases "bits a + e \<le> 53")
    case True
    then show ?thesis by (simp add: round_to_double_def abs_eq n)
  next
    case False
    define s where "s = bits a + e - 53"
    from False b53 have se: "s \<le> e" and spos: "0 < s" by (simp_all add: s_def)
    have decomp: "a * 2 ^ e = (a * 2 ^ (e - s)) * 2 ^ s"
      using se by (simp add: power_add [symmetric])
    have q: "a * 2 ^ e div 2 ^ s = a * 2 ^ (e - s)" by (subst decomp) simp
    have rm: "a * 2 ^ e mod 2 ^ s = 0" by (subst decomp) simp
    have v: "int (a * 2 ^ e) = \<bar>m\<bar> * 2 ^ e" by (simp add: a_def)
    have recomb: "a * 2 ^ (e - s) * 2 ^ s = a * 2 ^ e" by (rule decomp [symmetric])
    have p: "(2::int) ^ (e - s) * 2 ^ s = 2 ^ e"
      using se by (simp add: power_add [symmetric])
    have ia: "int a = \<bar>m\<bar>" by (simp add: a_def)
    have recomb_int: "int a * 2 ^ (e - s) * 2 ^ s = \<bar>m\<bar> * 2 ^ e"
      by (simp only: ia mult.assoc p)
    have sgn: "(m * 2 ^ e < 0) = (m < 0)" by (simp add: mult_less_0_iff)
    have "round_to_double (m * 2 ^ e) = Fin (if m < 0 then - (\<bar>m\<bar> * 2 ^ e) else \<bar>m\<bar> * 2 ^ e)"
      using False r spos
      by (simp add: round_to_double_def Let_def abs_eq n s_def [symmetric] q rm recomb_int sgn)
    then show ?thesis by simp
  qed
qed

lemma dsub_dbl: "\<bar>a - b\<bar> < 2 ^ 53 \<Longrightarrow> dsub (dbl a) (dbl b) = dbl (a - b)"
proof -
  assume small: "\<bar>a - b\<bar> < 2 ^ 53"
  then have "\<bar>a - b\<bar> \<le> 2 ^ 53 - 1" by simp
  then have "\<bar>a - b\<bar> * 2 ^ 1074 \<le> (2 ^ 53 - 1) * (2 ^ 1074 :: int)"
    by (rule mult_right_mono) simp
  also have "\<dots> \<le> (2 ^ 53 - 1) * (2 ^ 2045 :: int)"
    by (rule mult_left_mono) simp_all
  finally have "\<bar>a - b\<bar> * 2 ^ 1074 \<le> DBL_MAX_units" by (simp add: DBL_MAX_units_def)
  from round_to_double_exact [OF small this] show ?thesis
    by (simp add: dbl_def left_diff_distrib)
qed

lemma finite_dbl: "\<bar>n\<bar> < 2 ^ 53 \<Longrightarrow> dless (std_abs (dbl n)) numeric_limits_max"
proof -
  assume "\<bar>n\<bar> < 2 ^ 53"
  then have "\<bar>n\<bar> \<le> 2 ^ 53 - 1" by simp
  then have "\<bar>n\<bar> * 2 ^ 1074 \<le> (2 ^ 53 - 1) * (2 ^ 1074 :: int)"
    by (rule mult_right_mono) simp
  also have "\<dots> < (2 ^ 53 - 1) * (2 ^ 2045 :: int)"
    by (rule mult_strict_left_mono) simp_all
  finally show ?thesis
    by (simp add: dbl_def numeric_limits_max_def DBL_MAX_units_def abs_mult)
qed

lemma dle_dbl [simp]: "dle (dbl a) (dbl b) = (a \<le> b)"
  by (simp add: dbl_def)

lemma dless_dbl [simp]: "dless (dbl a) (dbl b) = (a < b)"
  by (simp add: dbl_def)

lemma dbl_cases [simp]:
  "dle NegInf (dbl n)" "dle (dbl n) PosInf" "\<not> dle PosInf (dbl n)" "\<not> dle (dbl n) NegInf"
  "\<not> dle NaN (dbl n)" "\<not> dle (dbl n) NaN"
  by (simp_all add: dbl_def)

lemma infinite_bounds [simp]:
  "\<not> dless PosInf numeric_limits_max" "\<not> dless NaN numeric_limits_max"
  by (simp_all add: numeric_limits_max_def)

section \<open>Cone projections\<close>

lemma std_min_zero_idem: "std_min (Fin 0) (std_min (Fin 0) a) = std_min (Fin 0) a"
  by (cases a) (auto simp: std_min_def)

lemma NegativeOrthant_Projection_loop_eq:
  "length x_proj = length x \<Longrightarrow> i \<le> length x \<Longrightarrow>
   NegativeOrthant_Projection_loop i x x_proj =
     Inr (take i x_proj @ map (std_min (Fin 0)) (drop i x))"
proof (induction i x x_proj rule: NegativeOrthant_Projection_loop.induct)
  case (1 i x x_proj)
  show ?case
  proof (cases "i < length x")
    case True
    with "1.prems" have il: "i < length x_proj" by simp
    have "NegativeOrthant_Projection_loop i x x_proj =
          NegativeOrthant_Projection_loop (Suc i) x (x_proj[i := std_min (Fin 0) (x ! i)])"
      using True il by (subst NegativeOrthant_Projection_loop.simps) simp
    also have "\<dots> = Inr (take (Suc i) (x_proj[i := std_min (Fin 0) (x ! i)]) @
                         map (std_min (Fin 0)) (drop (Suc i) x))"
      using "1.IH" [OF True il] "1.prems" True by simp
    also have "take (Suc i) (x_proj[i := std_min (Fin 0) (x ! i)]) =
               take i x_proj @ [std_min (Fin 0) (x ! i)]"
      using il by (simp add: take_Suc_conv_app_nth)
    also have "(take i x_proj @ [std_min (Fin 0) (x ! i)]) @ map (std_min (Fin 0)) (drop (Suc i) x)
               = take i x_proj @ map (std_min (Fin 0)) (drop i x)"
      using True by (simp add: Cons_nth_drop_Suc [symmetric])
    finally show ?thesis .
  next
    case False
    with "1.prems" show ?thesis
      by (subst NegativeOrthant_Projection_loop.simps) simp
  qed
qed

lemma NegativeOrthant_Projection_eq:
  "length x_proj = length x \<Longrightarrow>
   NegativeOrthant_Projection x x_proj = Inr (map (std_min (Fin 0)) x)"
  by (simp add: NegativeOrthant_Projection_def ALTRO_ASSERT_def NegativeOrthant_Projection_loop_eq)

text \<open>
  The Jacobian of NegativeOrthant on a square buffer of the size of \<open>x\<close>: the diagonal
  holds 0 where \<open>x_i > 0\<close> and 1 elsewhere, and every other coefficient is the one the
  buffer held before the call.
\<close>

lemma index_inj:
  fixes n :: nat
  assumes "r < n" "i < n" "r + c * n = i + j * n"
  shows "r = i \<and> c = j"
proof -
  from assms(3) have "(r + c * n) mod n = (i + j * n) mod n" by simp
  with assms(1,2) have ri: "r = i" by simp
  with assms(3) have "c * n = j * n" by simp
  with assms(1) have "c = j" by simp
  with ri show ?thesis ..
qed

lemma index_bound:
  fixes n :: nat
  assumes "i < n" "j < m"
  shows "i + j * n < n * m"
proof -
  from assms(1) have "i + j * n < n + j * n" by simp
  also have "\<dots> = n * Suc j" by simp
  also from assms(2) have "\<dots> \<le> n * m" by (intro mult_le_mono2) simp
  finally show ?thesis .
qed

lemma setCoeff_coeff:
  assumes "wf_matrix A" "i < mat_rows A" "j < mat_cols A"
  shows "\<exists>A'. setCoeff A i j v = Inr A' \<and> mat_rows A' = mat_rows A \<and> mat_cols A' = mat_cols A \<and>
           wf_matrix A' \<and>
           (\<forall>r < mat_rows A. \<forall>c < mat_cols A.
              coeff A' r c = (if r = i \<and> c = j then v else coeff A r c))"
proof -
  let ?A' = "A\<lparr>mat_data := (mat_data A)[i + j * mat_rows A := v]\<rparr>"
  have "coeff ?A' r c = (if r = i \<and> c = j then v else coeff A r c)"
    if "r < mat_rows A" "c < mat_cols A" for r c
  proof (cases "r = i \<and> c = j")
    case True
    with assms index_bound [of i "mat_rows A" j "mat_cols A"] show ?thesis
      by (simp add: coeff_def wf_matrix_def)
  next
    case False
    with that assms(2) have "i + j * mat_rows A \<noteq> r + c * mat_rows A"
      using index_inj [of r "mat_rows A" i c j] by auto
    then have "coeff ?A' r c = coeff A r c" by (simp add: coeff_def)
    with False show ?thesis by auto
  qed
  with assms show ?thesis
    by (simp add: setCoeff_def wf_matrix_def)
qed

lemma NegativeOrthant_Jacobian_loop_coeff:
  assumes "wf_matrix jac" "length x \<le> mat_rows jac" "length x \<le> mat_cols jac"
  shows "\<exists>J. NegativeOrthant_Jacobian_loop i x jac = Inr J \<and>
           mat_rows J = mat_rows jac \<and> mat_cols J = mat_cols jac \<and>
           (\<forall>r < mat_rows jac. \<forall>c < mat_cols jac.
              coeff J r c =
                (if r = c \<and> i \<le> r \<and> r < length x
                 then (if dgreater (x ! r) (Fin 0) then Fin 0 else dbl 1)
                 else coeff jac r c))"
  using assms
proof (induction i x jac rule: NegativeOrthant_Jacobian_loop.induct)
  case (1 i x jac)
  show ?case
  proof (cases "i < length x")
    case True
    let ?v = "if dgreater (x ! i) (Fin 0) then Fin 0 else dbl 1"
    from True "1.prems" have rng: "i < mat_rows jac" "i < mat_cols jac" by simp_all
    from setCoeff_coeff [OF "1.prems"(1) rng, of ?v]
    obtain jac' where set: "setCoeff jac i i ?v = Inr jac'"
      and dims: "mat_rows jac' = mat_rows jac" "mat_cols jac' = mat_cols jac"
      and wf': "wf_matrix jac'"
      and co: "\<And>r c. r < mat_rows jac \<Longrightarrow> c < mat_cols jac \<Longrightarrow>
                 coeff jac' r c = (if r = i \<and> c = i then ?v else coeff jac r c)"
      by blast
    from "1.IH" [OF True set wf'] "1.prems" dims
    obtain J where J: "NegativeOrthant_Jacobian_loop (Suc i) x jac' = Inr J"
      "mat_rows J = mat_rows jac" "mat_cols J = mat_cols jac"
      and coJ: "\<And>r c. r < mat_rows jac \<Longrightarrow> c < mat_cols jac \<Longrightarrow>
                 coeff J r c =
                   (if r = c \<and> Suc i \<le> r \<and> r < length x
                    then (if dgreater (x ! r) (Fin 0) then Fin 0 else dbl 1)
                    else coeff jac' r c)"
      by auto
    have step: "NegativeOrthant_Jacobian_loop i x jac = Inr J"
      using True set J(1) by (subst NegativeOrthant_Jacobian_loop.simps) simp
    have "coeff J r c =
            (if r = c \<and> i \<le> r \<and> r < length x
             then (if dgreater (x ! r) (Fin 0) then Fin 0 else dbl 1)
             else coeff jac r c)"
      if "r < mat_rows jac" "c < mat_cols jac" for r c
      using coJ [OF that] co [OF that] True by (auto simp: Suc_le_eq le_less)
    with step J(2,3) show ?thesis by blast
  next
    case False
    then show ?thesis
      by (subst NegativeOrthant_Jacobian_loop.simps) auto
  qed
qed

lemma NegativeOrthant_Jacobian_coeff:
  assumes "wf_matrix jac" "mat_rows jac = length x" "mat_cols jac = length x"
  shows "\<exists>J. NegativeOrthant_Jacobian x jac = Inr J \<and>
           mat_rows J = length x \<and> mat_cols J = length x \<and>
           (\<forall>r < length x. \<forall>c < length x.
              coeff J r c =
                (if r = c then (if dgreater (x ! r) (Fin 0) then Fin 0 else dbl 1)
                 else coeff jac r c))"
  using NegativeOrthant_Jacobian_loop_coeff [of jac x 0] assms
  by (auto simp: NegativeOrthant_Jacobian_def ALTRO_ASSERT_def)

lemma setZero_coeff:
  "r < mat_rows A \<Longrightarrow> c < mat_cols A \<Longrightarrow> coeff (setZero A) r c = Fin 0"
  using index_bound [of r "mat_rows A" c "mat_cols A"]
  by (simp add: coeff_def setZero_def)

lemma NegativeOrthant_Hessian_zero:
  "mat_rows hess = mat_cols hess \<Longrightarrow> length x = length b \<Longrightarrow>
   NegativeOrthant_Hessian x b hess = Inr (setZero hess)"
  by (simp add: NegativeOrthant_Hessian_def ALTRO_ASSERT_def)

lemma not_dgreater_zero: "dle v (Fin 0) \<Longrightarrow> \<not> dgreater v (Fin 0)"
  by (cases v) (simp_all add: dgreater_def)

text \<open>
  The Jacobians of the other two cones write every coefficient of the buffer, so
  theirs is zero off the diagonal whatever the buffer held.
\<close>

lemma setIdentity_coeff:
  assumes "r < mat_rows A" "c < mat_cols A"
  shows "coeff (setIdentity A) r c = (if r = c then dbl 1 else Fin 0)"
proof -
  let ?n = "mat_rows A"
  from assms have lt: "r + c * ?n < ?n * mat_cols A" by (rule index_bound)
  from assms(1) have "(r + c * ?n) mod ?n = r" "(r + c * ?n) div ?n = c" by simp_all
  with lt show ?thesis
    by (simp add: coeff_def setIdentity_def)
qed

lemma sibling_Jacobians_overwrite:
  assumes "r < mat_rows jac" "c < mat_cols jac" "r \<noteq> c"
  shows "\<exists>J. ZeroCone_Jacobian x jac = Inr J \<and> coeff J r c = Fin 0"
    and "mat_rows jac = mat_cols jac \<Longrightarrow>
         \<exists>J. IdentityCone_Jacobian x jac = Inr J \<and> coeff J r c = Fin 0"
  using assms
  by (simp_all add: ZeroCone_Jacobian_def IdentityCone_Jacobian_def ALTRO_ASSERT_def
        setZero_coeff setIdentity_coeff)

section \<open>ControlBound: finite indices, validation and the invariant\<close>

lemma GetFiniteIndices_loop_eq:
  "GetFiniteIndices_loop i bound index =
     index @ filter (\<lambda>j. dless (std_abs (bound ! j)) numeric_limits_max) [i ..< length bound]"
proof (induction i bound index rule: GetFiniteIndices_loop.induct)
  case (1 i bound index)
  show ?case
  proof (cases "i < length bound")
    case True
    then show ?thesis
      using "1.IH" [OF True]
      by (subst GetFiniteIndices_loop.simps) (simp add: upt_conv_Cons)
  next
    case False
    then show ?thesis
      by (subst GetFiniteIndices_loop.simps) simp
  qed
qed

lemma GetFiniteIndices_eq:
  "GetFiniteIndices bound =
     filter (\<lambda>j. dless (std_abs (bound ! j)) numeric_limits_max) [0 ..< length bound]"
  by (simp add: GetFiniteIndices_def GetFiniteIndices_loop_eq)

lemma length_filter_nth:
  "length (filter (\<lambda>j. P (xs ! j)) [0 ..< length xs]) = length (filter P xs)"
proof -
  have "filter P xs = filter P (map (\<lambda>j. xs ! j) [0 ..< length xs])"
    by (simp add: map_nth)
  also have "\<dots> = map (\<lambda>j. xs ! j) (filter (\<lambda>j. P (xs ! j)) [0 ..< length xs])"
    by (simp add: filter_map comp_def)
  finally show ?thesis by simp
qed

lemma length_GetFiniteIndices:
  "length (GetFiniteIndices bound) =
     length (filter (\<lambda>b. dless (std_abs b) numeric_limits_max) bound)"
  using length_filter_nth [of "\<lambda>b. dless (std_abs b) numeric_limits_max" bound]
  by (simp add: GetFiniteIndices_eq)

lemma GetFiniteIndices_bound: "j \<in> set (GetFiniteIndices bound) \<Longrightarrow> j < length bound"
  by (simp add: GetFiniteIndices_eq)

lemma GetFiniteIndices_finite:
  "j \<in> set (GetFiniteIndices bound) \<Longrightarrow> \<exists>k. bound ! j = Fin k"
  by (cases "bound ! j") (simp_all add: GetFiniteIndices_eq numeric_limits_max_def)

lemma ValidateBounds_loop_Inr:
  "ValidateBounds_loop i cb = Inr cb' \<Longrightarrow>
   cb' = cb \<and> (\<forall>j. i \<le> j \<and> int j < m_cb cb \<longrightarrow>
                  dle (lower_bound cb ! j) (upper_bound cb ! j))"
proof (induction i cb rule: ValidateBounds_loop.induct)
  case (1 i cb)
  show ?case
  proof (cases "int i < m_cb cb")
    case True
    from "1.prems" True have rng: "i < length (lower_bound cb) \<and> i < length (upper_bound cb)"
      by (subst (asm) ValidateBounds_loop.simps) (simp split: if_splits)
    from "1.prems" True rng have ok: "dle (lower_bound cb ! i) (upper_bound cb ! i)"
      and rest: "ValidateBounds_loop (Suc i) cb = Inr cb'"
      by (subst (asm) ValidateBounds_loop.simps, simp add: ALTRO_ASSERT_def split: if_splits)+
    from "1.IH" [OF True rng rest]
    have eq: "cb' = cb"
      and later: "\<And>j. Suc i \<le> j \<Longrightarrow> int j < m_cb cb \<Longrightarrow>
                   dle (lower_bound cb ! j) (upper_bound cb ! j)"
      by simp_all
    have "dle (lower_bound cb ! j) (upper_bound cb ! j)" if "i \<le> j" "int j < m_cb cb" for j
    proof (cases "j = i")
      case True
      with ok show ?thesis by simp
    next
      case False
      with that have "Suc i \<le> j" by simp
      with that show ?thesis by (simp add: later)
    qed
    with eq show ?thesis by simp
  next
    case False
    with "1.prems" have "cb' = cb"
      by (subst (asm) ValidateBounds_loop.simps) simp
    moreover from False have "\<not> int j < m_cb cb" if "i \<le> j" for j
      using that by linarith
    ultimately show ?thesis by blast
  qed
qed

lemma ValidateBounds_loop_fails:
  "i \<le> n \<Longrightarrow> int n < m_cb cb \<Longrightarrow> n < length (lower_bound cb) \<Longrightarrow> n < length (upper_bound cb) \<Longrightarrow>
   \<not> dle (lower_bound cb ! n) (upper_bound cb ! n) \<Longrightarrow>
   \<exists>msg. ValidateBounds_loop i cb = Inl (AssertionFailure msg)"
proof (induction i cb rule: ValidateBounds_loop.induct)
  case (1 i cb)
  from "1.prems" have lt: "int i < m_cb cb" by simp
  from "1.prems" have rng: "i < length (lower_bound cb) \<and> i < length (upper_bound cb)" by simp
  show ?case
  proof (cases "dle (lower_bound cb ! i) (upper_bound cb ! i)")
    case True
    with "1.prems" have "i \<noteq> n" by auto
    with "1.prems" have "Suc i \<le> n" by simp
    from "1.IH" [OF lt rng this "1.prems"(2-5)] show ?thesis
      using lt rng True by (subst ValidateBounds_loop.simps) (simp add: ALTRO_ASSERT_def)
  next
    case False
    then show ?thesis
      using lt rng by (subst ValidateBounds_loop.simps) (simp add: ALTRO_ASSERT_def)
  qed
qed

lemma dless_not_dle: "dless b a \<Longrightarrow> \<not> dle a b"
  by (cases a; cases b) simp_all

lemma ControlBound_dim_valid: "ControlBound_dim m = Inr cb \<Longrightarrow> ControlBound_valid cb"
  by (auto simp: ControlBound_dim_def ControlBound_valid_def GetFiniteIndices_eq
        numeric_limits_infinity_def numeric_limits_max_def filter_empty_conv split: if_splits)

lemma ControlBound_bounds_valid:
  assumes "ControlBound_bounds lb ub = Inr cb"
  shows "ControlBound_valid cb \<and> lower_bound cb = lb \<and> upper_bound cb = ub"
proof -
  define cb2 where "cb2 = \<lparr>m_cb = int (length lb), lower_bound = lb, upper_bound = ub,
     index_lower_bound = GetFiniteIndices lb, index_upper_bound = GetFiniteIndices ub\<rparr>"
  from assms have len: "length lb = length ub" and v: "ValidateBounds_loop 0 cb2 = Inr cb"
    by (auto simp: ControlBound_bounds_def ALTRO_ASSERT_def Let_def ValidateBounds_def cb2_def
          split: if_splits)
  from ValidateBounds_loop_Inr [OF v] have "cb = cb2"
    and "\<forall>j. int j < m_cb cb2 \<longrightarrow> dle (lower_bound cb2 ! j) (upper_bound cb2 ! j)" by auto
  then show ?thesis using len by (simp add: ControlBound_valid_def cb2_def)
qed

lemma SetUpperBound_valid:
  assumes "ControlBound_valid cb" "SetUpperBound cb ub = Inr cb'"
  shows "ControlBound_valid cb'"
proof -
  define cb2 where "cb2 = cb\<lparr>upper_bound := ub, index_upper_bound := GetFiniteIndices ub\<rparr>"
  from assms(2) have len: "int (length ub) = m_cb cb" and v: "ValidateBounds_loop 0 cb2 = Inr cb'"
    by (auto simp: SetUpperBound_def ALTRO_ASSERT_def Let_def ValidateBounds_def cb2_def
          split: if_splits)
  from ValidateBounds_loop_Inr [OF v] have "cb' = cb2"
    and "\<forall>j. int j < m_cb cb2 \<longrightarrow> dle (lower_bound cb2 ! j) (upper_bound cb2 ! j)" by auto
  then show ?thesis using len assms(1) by (simp add: ControlBound_valid_def cb2_def)
qed

lemma SetLowerBound_valid:
  assumes "ControlBound_valid cb" "SetLowerBound cb lb = Inr cb'"
  shows "ControlBound_valid cb'"
proof -
  define cb2 where "cb2 = cb\<lparr>lower_bound := lb, index_lower_bound := GetFiniteIndices lb\<rparr>"
  from assms(2) have len: "int (length lb) = m_cb cb" and v: "ValidateBounds_loop 0 cb2 = Inr cb'"
    by (auto simp: SetLowerBound_def ALTRO_ASSERT_def Let_def ValidateBounds_def cb2_def
          split: if_splits)
  from ValidateBounds_loop_Inr [OF v] have "cb' = cb2"
    and "\<forall>j. int j < m_cb cb2 \<longrightarrow> dle (lower_bound cb2 ! j) (upper_bound cb2 ! j)" by auto
  then show ?thesis using len assms(1) by (simp add: ControlBound_valid_def cb2_def)
qed

lemma ControlBound_reachable_valid: "ControlBound_reachable cb \<Longrightarrow> ControlBound_valid cb"
  by (induction rule: ControlBound_reachable.induct)
     (auto intro: ControlBound_dim_valid SetUpperBound_valid SetLowerBound_valid
           dest: ControlBound_bounds_valid)

section \<open>ControlBound: evaluation\<close>

lemma Evaluate_lower_loop_eq:
  assumes "\<forall>j \<in> set (index_lower_bound cb). j < length (lower_bound cb) \<and> j < length u"
    and "length (index_lower_bound cb) \<le> length c"
    and "i \<le> length (index_lower_bound cb)"
  shows "Evaluate_lower_loop i cb u c =
           Inr (take i c @
                map (\<lambda>j. dsub (lower_bound cb ! j) (u ! j)) (drop i (index_lower_bound cb)) @
                drop (length (index_lower_bound cb)) c)"
  using assms
proof (induction i cb u c rule: Evaluate_lower_loop.induct)
  case (1 i cb u c)
  let ?L = "index_lower_bound cb"
  let ?f = "\<lambda>j. dsub (lower_bound cb ! j) (u ! j)"
  show ?case
  proof (cases "i < length ?L")
    case True
    then have mem: "?L ! i \<in> set ?L" by simp
    with "1.prems"(1) have rng: "?L ! i < length (lower_bound cb) \<and> ?L ! i < length u \<and> i < length c"
      using True "1.prems"(2) by auto
    let ?c' = "c[i := ?f (?L ! i)]"
    have "Evaluate_lower_loop i cb u c = Evaluate_lower_loop (Suc i) cb u ?c'"
      using True rng by (subst Evaluate_lower_loop.simps) (simp add: Let_def)
    also have "\<dots> = Inr (take (Suc i) ?c' @ map ?f (drop (Suc i) ?L) @ drop (length ?L) ?c')"
      using "1.IH" [OF True refl rng] "1.prems" True by simp
    also have "take (Suc i) ?c' = take i c @ [?f (?L ! i)]"
      using rng by (simp add: take_Suc_conv_app_nth)
    also have "drop (length ?L) ?c' = drop (length ?L) c"
      using True by simp
    also have "(take i c @ [?f (?L ! i)]) @ map ?f (drop (Suc i) ?L) @ drop (length ?L) c =
               take i c @ map ?f (drop i ?L) @ drop (length ?L) c"
      using True by (simp add: Cons_nth_drop_Suc [symmetric])
    finally show ?thesis .
  next
    case False
    with "1.prems" have "i = length ?L" by simp
    then show ?thesis
      by (subst Evaluate_lower_loop.simps) (simp add: drop_all)
  qed
qed

lemma Evaluate_upper_loop_eq:
  assumes "\<forall>j \<in> set (index_upper_bound cb). j < length (upper_bound cb) \<and> j < length u"
    and "offset + length (index_upper_bound cb) \<le> length c"
    and "i \<le> length (index_upper_bound cb)"
  shows "Evaluate_upper_loop i offset cb u c =
           Inr (take (i + offset) c @
                map (\<lambda>j. dsub (u ! j) (upper_bound cb ! j)) (drop i (index_upper_bound cb)) @
                drop (offset + length (index_upper_bound cb)) c)"
  using assms
proof (induction i offset cb u c rule: Evaluate_upper_loop.induct)
  case (1 i offset cb u c)
  let ?U = "index_upper_bound cb"
  let ?g = "\<lambda>j. dsub (u ! j) (upper_bound cb ! j)"
  show ?case
  proof (cases "i < length ?U")
    case True
    then have mem: "?U ! i \<in> set ?U" by simp
    with "1.prems"(1) have rng: "?U ! i < length (upper_bound cb) \<and> ?U ! i < length u \<and>
        i + offset < length c"
      using True "1.prems"(2) by auto
    let ?c' = "c[i + offset := ?g (?U ! i)]"
    have "Evaluate_upper_loop i offset cb u c = Evaluate_upper_loop (Suc i) offset cb u ?c'"
      using True rng by (subst Evaluate_upper_loop.simps) (simp add: Let_def)
    also have "\<dots> = Inr (take (Suc i + offset) ?c' @ map ?g (drop (Suc i) ?U) @
                         drop (offset + length ?U) ?c')"
      using "1.IH" [OF True refl rng] "1.prems" True by simp
    also have "take (Suc i + offset) ?c' = take (i + offset) c @ [?g (?U ! i)]"
      using rng by (simp add: take_Suc_conv_app_nth)
    also have "drop (offset + length ?U) ?c' = drop (offset + length ?U) c"
      using True by simp
    also have "(take (i + offset) c @ [?g (?U ! i)]) @ map ?g (drop (Suc i) ?U) @
                 drop (offset + length ?U) c =
               take (i + offset) c @ map ?g (drop i ?U) @ drop (offset + length ?U) c"
      using True by (simp add: Cons_nth_drop_Suc [symmetric])
    finally show ?thesis .
  next
    case False
    with "1.prems" have "i = length ?U" by simp
    then show ?thesis
      by (subst Evaluate_upper_loop.simps) (simp add: drop_all add.commute)
  qed
qed

lemma ControlBound_Evaluate_eq:
  assumes v: "ControlBound_valid cb"
    and lu: "int (length u) = m_cb cb"
    and lc: "int (length c) = ControlBound_OutputDimension cb"
  shows "ControlBound_Evaluate cb u c =
           Inr (map (\<lambda>j. dsub (lower_bound cb ! j) (u ! j)) (index_lower_bound cb) @
                map (\<lambda>j. dsub (u ! j) (upper_bound cb ! j)) (index_upper_bound cb))"
proof -
  let ?L = "index_lower_bound cb" and ?U = "index_upper_bound cb"
  let ?f = "\<lambda>j. dsub (lower_bound cb ! j) (u ! j)"
  let ?g = "\<lambda>j. dsub (u ! j) (upper_bound cb ! j)"
  from v lu have len: "length u = length (lower_bound cb)" "length (upper_bound cb) = length u"
    by (simp_all add: ControlBound_valid_def)
  from lc have clen: "length c = length ?L + length ?U"
    by (simp add: ControlBound_OutputDimension_def)
  have L: "\<forall>j \<in> set ?L. j < length (lower_bound cb) \<and> j < length u"
    using v len by (auto simp: ControlBound_valid_def dest: GetFiniteIndices_bound)
  have U: "\<forall>j \<in> set ?U. j < length (upper_bound cb) \<and> j < length u"
    using v len by (auto simp: ControlBound_valid_def dest: GetFiniteIndices_bound)
  let ?c1 = "map ?f ?L @ drop (length ?L) c"
  have one: "Evaluate_lower_loop 0 cb u c = Inr ?c1"
    using Evaluate_lower_loop_eq [OF L, of c 0] clen by simp
  have "Evaluate_upper_loop 0 (length ?L) cb u ?c1 =
          Inr (take (length ?L) ?c1 @ map ?g ?U @ drop (length ?L + length ?U) ?c1)"
    using Evaluate_upper_loop_eq [OF U, of "length ?L" ?c1 0] clen by simp
  also have "take (length ?L) ?c1 = map ?f ?L" by simp
  also have "drop (length ?L + length ?U) ?c1 = []" using clen by simp
  finally show ?thesis
    using lu one by (simp add: ControlBound_Evaluate_def ALTRO_ASSERT_def)
qed

lemma ControlBound_rows_nonpositive_iff:
  assumes v: "ControlBound_valid cb"
  shows "(\<forall>y \<in> set (map (\<lambda>j. dsub (lower_bound cb ! j) (u ! j)) (index_lower_bound cb) @
                     map (\<lambda>j. dsub (u ! j) (upper_bound cb ! j)) (index_upper_bound cb)).
            dle y (Fin 0)) \<longleftrightarrow>
         (\<forall>j \<in> set (index_lower_bound cb). dle (lower_bound cb ! j) (u ! j)) \<and>
         (\<forall>j \<in> set (index_upper_bound cb). dle (u ! j) (upper_bound cb ! j))"
proof -
  have lo: "dle (dsub (lower_bound cb ! j) (u ! j)) (Fin 0) \<longleftrightarrow> dle (lower_bound cb ! j) (u ! j)"
    if "j \<in> set (index_lower_bound cb)" for j
  proof -
    from that v obtain k where "lower_bound cb ! j = Fin k"
      using GetFiniteIndices_finite [of j "lower_bound cb"] by (auto simp: ControlBound_valid_def)
    then show ?thesis by (simp add: dsub_Fin_left_le_zero)
  qed
  have up: "dle (dsub (u ! j) (upper_bound cb ! j)) (Fin 0) \<longleftrightarrow> dle (u ! j) (upper_bound cb ! j)"
    if "j \<in> set (index_upper_bound cb)" for j
  proof -
    from that v obtain k where "upper_bound cb ! j = Fin k"
      using GetFiniteIndices_finite [of j "upper_bound cb"] by (auto simp: ControlBound_valid_def)
    then show ?thesis by (simp add: dsub_Fin_right_le_zero)
  qed
  show ?thesis using lo up by (auto simp: ball_Un)
qed

lemma cone_member_NegativeOrthant: "cone_member NegativeOrthant y \<longleftrightarrow> (\<forall>a \<in> set y. dle a (Fin 0))"
proof -
  have "cone_member NegativeOrthant y \<longleftrightarrow> map (std_min (Fin 0)) y = map id y"
    by (simp add: cone_member_def NegativeOrthant_Projection_eq)
  also have "\<dots> \<longleftrightarrow> (\<forall>a \<in> set y. std_min (Fin 0) a = a)"
    by (simp only: map_eq_conv id_apply)
  finally show ?thesis by (simp add: std_min_fixed_iff)
qed

lemma not_infinite_iff:
  "b \<noteq> NaN \<Longrightarrow> (\<not> bound_is_infinite b) = dless (std_abs b) numeric_limits_max"
  by (cases b) (auto simp: bound_is_infinite_def numeric_limits_max_def)

lemma dle_not_NaN: "dle a b \<Longrightarrow> a \<noteq> NaN \<and> b \<noteq> NaN"
  by (cases a; cases b) simp_all

lemma ControlBound_valid_no_NaN:
  "ControlBound_valid cb \<Longrightarrow>
   (\<forall>b \<in> set (lower_bound cb). b \<noteq> NaN) \<and> (\<forall>b \<in> set (upper_bound cb). b \<noteq> NaN)"
  unfolding ControlBound_valid_def
  by (metis dle_not_NaN in_set_conv_nth)

lemma filter_finite_values:
  "\<forall>b \<in> set xs. b \<noteq> NaN \<Longrightarrow>
   filter (\<lambda>b. \<not> bound_is_infinite b) xs =
   filter (\<lambda>b. dless (std_abs b) numeric_limits_max) xs"
  by (rule filter_cong) (simp_all add: not_infinite_iff)

lemma filter_finite_indices:
  "\<forall>b \<in> set xs. b \<noteq> NaN \<Longrightarrow>
   filter (\<lambda>i. \<not> bound_is_infinite (xs ! i)) [0 ..< length xs] = GetFiniteIndices xs"
  unfolding GetFiniteIndices_eq
  by (rule filter_cong) (simp_all add: not_infinite_iff)

lemma ControlBound_valid_OutputDimension:
  assumes "ControlBound_valid cb"
  shows "ControlBound_OutputDimension cb = spec_OutputDimension (lower_bound cb) (upper_bound cb)"
proof -
  from ControlBound_valid_no_NaN [OF assms]
  have "filter (\<lambda>b. \<not> bound_is_infinite b) (lower_bound cb) =
          filter (\<lambda>b. dless (std_abs b) numeric_limits_max) (lower_bound cb)"
    and "filter (\<lambda>b. \<not> bound_is_infinite b) (upper_bound cb) =
          filter (\<lambda>b. dless (std_abs b) numeric_limits_max) (upper_bound cb)"
    by (simp_all add: filter_finite_values)
  with assms show ?thesis
    by (simp add: ControlBound_OutputDimension_def spec_OutputDimension_def
          ControlBound_valid_def length_GetFiniteIndices)
qed

lemma ControlBound_valid_indices:
  assumes "ControlBound_valid cb"
  shows "index_lower_bound cb =
           filter (\<lambda>i. \<not> bound_is_infinite (lower_bound cb ! i)) [0 ..< length (lower_bound cb)]"
    and "index_upper_bound cb =
           filter (\<lambda>i. \<not> bound_is_infinite (upper_bound cb ! i)) [0 ..< length (upper_bound cb)]"
proof -
  from ControlBound_valid_no_NaN [OF assms]
  have lo: "\<forall>b \<in> set (lower_bound cb). b \<noteq> NaN" and up: "\<forall>b \<in> set (upper_bound cb). b \<noteq> NaN"
    by simp_all
  from assms have il: "index_lower_bound cb = GetFiniteIndices (lower_bound cb)"
    and iu: "index_upper_bound cb = GetFiniteIndices (upper_bound cb)"
    by (simp_all add: ControlBound_valid_def)
  show "index_lower_bound cb =
      filter (\<lambda>i. \<not> bound_is_infinite (lower_bound cb ! i)) [0 ..< length (lower_bound cb)]"
    by (simp only: il filter_finite_indices [OF lo])
  show "index_upper_bound cb =
      filter (\<lambda>i. \<not> bound_is_infinite (upper_bound cb ! i)) [0 ..< length (upper_bound cb)]"
    by (simp only: iu filter_finite_indices [OF up])
qed

lemma ControlBound_bounds_example:
  "ControlBound_bounds [dbl (- 2), NegInf] [dbl 2, dbl 3] =
   Inr \<lparr>m_cb = 2, lower_bound = [dbl (- 2), NegInf], upper_bound = [dbl 2, dbl 3],
        index_lower_bound = [0], index_upper_bound = [0, 1]\<rparr>"
  by (simp add: ControlBound_bounds_def ALTRO_ASSERT_def Let_def ValidateBounds_def
        ValidateBounds_loop.simps GetFiniteIndices_def GetFiniteIndices_loop.simps finite_dbl)

lemma omitted_upper_bound_holds:
  "dless (std_abs l) numeric_limits_max \<Longrightarrow> dle l b \<Longrightarrow>
   \<not> dless (std_abs b) numeric_limits_max \<Longrightarrow> \<bar>k\<bar> \<le> DBL_MAX_units \<Longrightarrow> dle (Fin k) b"
  by (cases l; cases b) (auto simp: numeric_limits_max_def)

lemma omitted_lower_bound_holds:
  "dless (std_abs b) numeric_limits_max \<Longrightarrow> dle l b \<Longrightarrow>
   \<not> dless (std_abs l) numeric_limits_max \<Longrightarrow> \<bar>k\<bar> \<le> DBL_MAX_units \<Longrightarrow> dle l (Fin k)"
  by (cases l; cases b) (auto simp: numeric_limits_max_def)

lemma ControlBound_finite_control_feasibility:
  assumes v: "ControlBound_valid cb"
    and lu: "int (length u) = m_cb cb"
    and fin: "\<forall>j < length u. \<exists>k. u ! j = Fin k \<and> \<bar>k\<bar> \<le> DBL_MAX_units"
  shows "(\<forall>j \<in> set (index_lower_bound cb). dle (lower_bound cb ! j) (u ! j)) \<and>
         (\<forall>j \<in> set (index_upper_bound cb). dle (u ! j) (upper_bound cb ! j)) \<longleftrightarrow>
         (\<forall>j \<in> set (index_lower_bound cb) \<union> set (index_upper_bound cb).
            dle (lower_bound cb ! j) (u ! j) \<and> dle (u ! j) (upper_bound cb ! j))"
    (is "?each \<longleftrightarrow> ?chain")
proof
  assume ?chain
  then show ?each by blast
next
  assume each: ?each
  from v lu have len: "length (lower_bound cb) = length u" "length (upper_bound cb) = length u"
    and il: "index_lower_bound cb = GetFiniteIndices (lower_bound cb)"
    and iu: "index_upper_bound cb = GetFiniteIndices (upper_bound cb)"
    and ord: "\<And>j. j < length u \<Longrightarrow> dle (lower_bound cb ! j) (upper_bound cb ! j)"
    by (simp_all add: ControlBound_valid_def)
  have mem_l: "j \<in> set (index_lower_bound cb) \<longleftrightarrow>
      j < length u \<and> dless (std_abs (lower_bound cb ! j)) numeric_limits_max" for j
    by (auto simp: il GetFiniteIndices_eq len)
  have mem_u: "j \<in> set (index_upper_bound cb) \<longleftrightarrow>
      j < length u \<and> dless (std_abs (upper_bound cb ! j)) numeric_limits_max" for j
    by (auto simp: iu GetFiniteIndices_eq len)
  show ?chain
  proof
    fix j assume j: "j \<in> set (index_lower_bound cb) \<union> set (index_upper_bound cb)"
    then have jl: "j < length u" using mem_l mem_u by auto
    with fin obtain k where k: "u ! j = Fin k" "\<bar>k\<bar> \<le> DBL_MAX_units" by blast
    have "dle (lower_bound cb ! j) (u ! j)"
    proof (cases "j \<in> set (index_lower_bound cb)")
      case True
      with each show ?thesis by blast
    next
      case False
      with j have "j \<in> set (index_upper_bound cb)" by simp
      with mem_u have "dless (std_abs (upper_bound cb ! j)) numeric_limits_max" by simp
      moreover from False jl mem_l
      have "\<not> dless (std_abs (lower_bound cb ! j)) numeric_limits_max" by simp
      ultimately show ?thesis
        using ord [OF jl] k by (simp add: omitted_lower_bound_holds)
    qed
    moreover have "dle (u ! j) (upper_bound cb ! j)"
    proof (cases "j \<in> set (index_upper_bound cb)")
      case True
      with each show ?thesis by blast
    next
      case False
      with j have "j \<in> set (index_lower_bound cb)" by simp
      with mem_l have "dless (std_abs (lower_bound cb ! j)) numeric_limits_max" by simp
      moreover from False jl mem_u
      have "\<not> dless (std_abs (upper_bound cb ! j)) numeric_limits_max" by simp
      ultimately show ?thesis
        using ord [OF jl] k omitted_upper_bound_holds [of "lower_bound cb ! j" "upper_bound cb ! j" k]
        by simp
    qed
    ultimately show "dle (lower_bound cb ! j) (u ! j) \<and> dle (u ! j) (upper_bound cb ! j)" ..
  qed
qed

section \<open>Properties of the cones\<close>

text \<open>
  C6. The dual of the Zero cone is the Identity cone, the dual of the Identity cone is
  the Zero cone, and the NegativeOrthant cone is its own dual; taking the dual twice
  gives back the cone one started from.
\<close>

theorem DualCone_involution:
  "DualCone ZeroCone = IdentityCone \<and> DualCone IdentityCone = ZeroCone \<and>
   DualCone NegativeOrthant = NegativeOrthant \<and> DualCone (DualCone K) = K"
  by (cases K) simp_all

text \<open>
  C5. For each of the three cones and every vector \<open>v\<close>, the projection returns, and
  projecting its result again returns that same result. The output buffers have the
  length of \<open>v\<close>, as the assertion of each projection demands.
\<close>

theorem Projection_idempotent:
  assumes "length x_proj = length v" and "length x_proj' = length v"
  shows "\<exists>p. Projection K v x_proj = Inr p \<and> Projection K p x_proj' = Inr p"
proof (cases K)
  case ZeroCone
  with assms show ?thesis
    by (simp add: ZeroCone_Projection_def ALTRO_ASSERT_def)
next
  case IdentityCone
  with assms show ?thesis
    by (simp add: IdentityCone_Projection_def ALTRO_ASSERT_def)
next
  case NegativeOrthant
  have "map (std_min (Fin 0)) (map (std_min (Fin 0)) v) = map (std_min (Fin 0)) v"
    by (simp add: std_min_zero_idem)
  with NegativeOrthant assms show ?thesis
    by (simp add: NegativeOrthant_Projection_eq)
qed

theorem Projection_idempotent_witness:
  "Projection NegativeOrthant [dbl 1, dbl (- 1), NaN] [Fin 0, Fin 0, Fin 0] =
     Inr [Fin 0, dbl (- 1), Fin 0] \<and>
   Projection NegativeOrthant [Fin 0, dbl (- 1), Fin 0] [Fin 0, Fin 0, Fin 0] =
     Inr [Fin 0, dbl (- 1), Fin 0]"
proof -
  have len: "length [Fin 0, Fin 0, Fin 0] = length [dbl 1, dbl (- 1), NaN]" by simp
  have val: "Projection NegativeOrthant [dbl 1, dbl (- 1), NaN] [Fin 0, Fin 0, Fin 0] =
             Inr [Fin 0, dbl (- 1), Fin 0]"
    by (simp add: NegativeOrthant_Projection_def ALTRO_ASSERT_def
          NegativeOrthant_Projection_loop.simps std_min_def dbl_def)
  from Projection_idempotent [OF len len, of NegativeOrthant] val show ?thesis by simp
qed

text \<open>
  C1. The projection of NegativeOrthant is the componentwise \<open>min(0, v_i)\<close>
  (\<open>NegativeOrthant_Projection_eq\<close>), the diagonal of its Jacobian is 1 where
  \<open>v_i \<le> 0\<close> and 0 where \<open>v_i > 0\<close> (\<open>NegativeOrthant_Jacobian_coeff\<close>) and its Hessian
  is zero (\<open>NegativeOrthant_Hessian_zero\<close>). But the Jacobian writes the diagonal only,
  where those of the other two cones write the whole buffer
  (\<open>sibling_Jacobians_overwrite\<close>): on \<open>v = (-1, 1)\<close> and a 2 by 2 buffer holding 5
  everywhere, the result has the diagonal \<open>(1, 0)\<close> and still 5 off the diagonal,
  not 0.
\<close>

theorem NegativeOrthant_Jacobian_keeps_offdiagonal:
  "NegativeOrthant_Jacobian [dbl (- 1), dbl 1]
     \<lparr>mat_rows = 2, mat_cols = 2, mat_data = [dbl 5, dbl 5, dbl 5, dbl 5]\<rparr>
   = Inr \<lparr>mat_rows = 2, mat_cols = 2, mat_data = [dbl 1, dbl 5, dbl 5, Fin 0]\<rparr> \<and>
   coeff \<lparr>mat_rows = 2, mat_cols = 2, mat_data = [dbl 1, dbl 5, dbl 5, Fin 0]\<rparr> 0 1 \<noteq> Fin 0"
  by (simp add: NegativeOrthant_Jacobian_def ALTRO_ASSERT_def NegativeOrthant_Jacobian_loop.simps
      setCoeff_def dgreater_def dbl_def coeff_def)

section \<open>Properties of ControlBound\<close>

text \<open>
  C2. A ControlBound built from bound vectors \<open>(lb, ub)\<close> has as its output dimension the
  number of bounds, lower and upper, that are not infinite in the sense of the
  specification (magnitude at least the largest finite double); the rows are those of
  the indices of such bounds, in increasing order. The constructor has accepted the
  bounds, so none of them is NaN and every bound is either infinite in that sense or
  counted.
\<close>

theorem ControlBound_OutputDimension_finite_bounds:
  assumes "ControlBound_bounds lb ub = Inr cb"
  shows "ControlBound_OutputDimension cb = spec_OutputDimension lb ub \<and>
         index_lower_bound cb = filter (\<lambda>i. \<not> bound_is_infinite (lb ! i)) [0 ..< length lb] \<and>
         index_upper_bound cb = filter (\<lambda>i. \<not> bound_is_infinite (ub ! i)) [0 ..< length ub]"
proof -
  from ControlBound_bounds_valid [OF assms]
  have v: "ControlBound_valid cb" and l: "lower_bound cb = lb" and u: "upper_bound cb = ub"
    by simp_all
  from ControlBound_valid_OutputDimension [OF v] ControlBound_valid_indices [OF v]
  show ?thesis by (simp add: l u)
qed

theorem ControlBound_OutputDimension_finite_bounds_witness:
  "ControlBound_bounds [dbl (- 2), NegInf] [dbl 2, dbl 3] =
     Inr \<lparr>m_cb = 2, lower_bound = [dbl (- 2), NegInf], upper_bound = [dbl 2, dbl 3],
          index_lower_bound = [0], index_upper_bound = [0, 1]\<rparr> \<and>
   ControlBound_OutputDimension
     \<lparr>m_cb = 2, lower_bound = [dbl (- 2), NegInf], upper_bound = [dbl 2, dbl 3],
      index_lower_bound = [0], index_upper_bound = [0, 1]\<rparr> = 3 \<and>
   spec_OutputDimension [dbl (- 2), NegInf] [dbl 2, dbl 3] = 3"
proof -
  let ?cb = "\<lparr>m_cb = 2, lower_bound = [dbl (- 2), NegInf], upper_bound = [dbl 2, dbl 3],
              index_lower_bound = [0], index_upper_bound = [0, 1]\<rparr>"
  have built: "ControlBound_bounds [dbl (- 2), NegInf] [dbl 2, dbl 3] = Inr ?cb"
    by (rule ControlBound_bounds_example)
  from ControlBound_OutputDimension_finite_bounds [OF built]
  have "ControlBound_OutputDimension ?cb = spec_OutputDimension [dbl (- 2), NegInf] [dbl 2, dbl 3]"
    by (rule conjunct1)
  moreover have "ControlBound_OutputDimension ?cb = 3"
    by (simp add: ControlBound_OutputDimension_def)
  ultimately show ?thesis using built by simp
qed

text \<open>
  C7. When some component has its lower bound strictly above its upper bound, the
  constructor fails with an assertion, and so do \<open>SetLowerBound\<close> on an object holding
  such an upper bound and \<open>SetUpperBound\<close> on an object holding such a lower bound. So
  no object that a program can hold has crossed bounds (\<open>ControlBound_reachable_valid\<close>).
\<close>

theorem ControlBound_rejects_crossed_bounds:
  assumes i: "i < length lb" "i < length ub" and crossed: "dless (ub ! i) (lb ! i)"
    and cb1: "upper_bound cb1 = ub" and cb2: "lower_bound cb2 = lb"
  shows "(\<exists>msg. ControlBound_bounds lb ub = Inl (AssertionFailure msg)) \<and>
         (\<exists>msg. SetLowerBound cb1 lb = Inl (AssertionFailure msg)) \<and>
         (\<exists>msg. SetUpperBound cb2 ub = Inl (AssertionFailure msg))"
proof -
  from crossed have bad: "\<not> dle (lb ! i) (ub ! i)" by (rule dless_not_dle)
  have ctor: "\<exists>msg. ControlBound_bounds lb ub = Inl (AssertionFailure msg)"
  proof (cases "length lb = length ub")
    case True
    define cb where "cb = \<lparr>m_cb = int (length lb), lower_bound = lb, upper_bound = ub,
      index_lower_bound = GetFiniteIndices lb, index_upper_bound = GetFiniteIndices ub\<rparr>"
    have "\<exists>msg. ValidateBounds_loop 0 cb = Inl (AssertionFailure msg)"
      by (rule ValidateBounds_loop_fails [of 0 i]) (use i bad in \<open>simp_all add: cb_def\<close>)
    with True i show ?thesis
      by (simp add: ControlBound_bounds_def ALTRO_ASSERT_def Let_def ValidateBounds_def cb_def)
  next
    case False
    then show ?thesis by (simp add: ControlBound_bounds_def ALTRO_ASSERT_def Let_def)
  qed
  have lower: "\<exists>msg. SetLowerBound cb1 lb = Inl (AssertionFailure msg)"
  proof (cases "int (length lb) = m_cb cb1")
    case True
    define cb where "cb = cb1\<lparr>lower_bound := lb, index_lower_bound := GetFiniteIndices lb\<rparr>"
    have "\<exists>msg. ValidateBounds_loop 0 cb = Inl (AssertionFailure msg)"
      by (rule ValidateBounds_loop_fails [of 0 i]) (use i bad cb1 True in \<open>simp_all add: cb_def\<close>)
    with True show ?thesis
      by (simp add: SetLowerBound_def ALTRO_ASSERT_def Let_def ValidateBounds_def cb_def)
  next
    case False
    then show ?thesis by (simp add: SetLowerBound_def ALTRO_ASSERT_def)
  qed
  have upper: "\<exists>msg. SetUpperBound cb2 ub = Inl (AssertionFailure msg)"
  proof (cases "int (length ub) = m_cb cb2")
    case True
    define cb where "cb = cb2\<lparr>upper_bound := ub, index_upper_bound := GetFiniteIndices ub\<rparr>"
    have "\<exists>msg. ValidateBounds_loop 0 cb = Inl (AssertionFailure msg)"
      by (rule ValidateBounds_loop_fails [of 0 i]) (use i bad cb2 True in \<open>simp_all add: cb_def\<close>)
    with True show ?thesis
      by (simp add: SetUpperBound_def ALTRO_ASSERT_def Let_def ValidateBounds_def cb_def)
  next
    case False
    then show ?thesis by (simp add: SetUpperBound_def ALTRO_ASSERT_def)
  qed
  from ctor lower upper show ?thesis by blast
qed

theorem ControlBound_rejects_crossed_bounds_witness:
  "dless ([dbl 0] ! 0) ([dbl 1] ! 0) \<and>
   ControlBound_reachable
     \<lparr>m_cb = 1, lower_bound = [dbl (- 1)], upper_bound = [dbl 0],
      index_lower_bound = [0], index_upper_bound = [0]\<rparr> \<and>
   ControlBound_reachable
     \<lparr>m_cb = 1, lower_bound = [dbl 1], upper_bound = [dbl 2],
      index_lower_bound = [0], index_upper_bound = [0]\<rparr> \<and>
   (\<exists>msg. ControlBound_bounds [dbl 1] [dbl 0] = Inl (AssertionFailure msg)) \<and>
   (\<exists>msg. SetLowerBound
            \<lparr>m_cb = 1, lower_bound = [dbl (- 1)], upper_bound = [dbl 0],
             index_lower_bound = [0], index_upper_bound = [0]\<rparr> [dbl 1] =
          Inl (AssertionFailure msg)) \<and>
   (\<exists>msg. SetUpperBound
            \<lparr>m_cb = 1, lower_bound = [dbl 1], upper_bound = [dbl 2],
             index_lower_bound = [0], index_upper_bound = [0]\<rparr> [dbl 0] =
          Inl (AssertionFailure msg))"
proof -
  let ?cb1 = "\<lparr>m_cb = 1, lower_bound = [dbl (- 1)], upper_bound = [dbl 0],
               index_lower_bound = [0], index_upper_bound = [0]\<rparr>"
  let ?cb2 = "\<lparr>m_cb = 1, lower_bound = [dbl 1], upper_bound = [dbl 2],
               index_lower_bound = [0], index_upper_bound = [0]\<rparr>"
  have crossed: "dless ([dbl 0] ! 0) ([dbl 1] ! 0)" by simp
  have "ControlBound_bounds [dbl (- 1)] [dbl 0] = Inr ?cb1"
    by (simp add: ControlBound_bounds_def ALTRO_ASSERT_def Let_def ValidateBounds_def
          ValidateBounds_loop.simps GetFiniteIndices_def GetFiniteIndices_loop.simps finite_dbl)
  then have r1: "ControlBound_reachable ?cb1" by (rule from_bounds)
  have "ControlBound_bounds [dbl 1] [dbl 2] = Inr ?cb2"
    by (simp add: ControlBound_bounds_def ALTRO_ASSERT_def Let_def ValidateBounds_def
          ValidateBounds_loop.simps GetFiniteIndices_def GetFiniteIndices_loop.simps finite_dbl)
  then have r2: "ControlBound_reachable ?cb2" by (rule from_bounds)
  from ControlBound_rejects_crossed_bounds [of 0 "[dbl 1]" "[dbl 0]" ?cb1 ?cb2, OF _ _ crossed]
    crossed r1 r2
  show ?thesis by simp
qed

lemma ControlBound_bounds_max_example:
  "ControlBound_bounds [dbl 5] [numeric_limits_max] =
   Inr \<lparr>m_cb = 1, lower_bound = [dbl 5], upper_bound = [numeric_limits_max],
        index_lower_bound = [0], index_upper_bound = []\<rparr>"
proof -
  have "dle (dbl 5) numeric_limits_max"
    using finite_dbl [of 5] by (simp add: dbl_def numeric_limits_max_def)
  moreover have "\<not> dless (std_abs numeric_limits_max) numeric_limits_max"
    by (simp add: numeric_limits_max_def)
  ultimately show ?thesis
    by (simp add: ControlBound_bounds_def ALTRO_ASSERT_def Let_def ValidateBounds_def
          ValidateBounds_loop.simps GetFiniteIndices_def GetFiniteIndices_loop.simps finite_dbl)
qed

lemma dbl_in_range: "\<bar>n\<bar> < 2 ^ 53 \<Longrightarrow> \<exists>k. dbl n = Fin k \<and> \<bar>k\<bar> \<le> DBL_MAX_units"
  using finite_dbl [of n] by (simp add: dbl_def numeric_limits_max_def)

text \<open>
  C9. On a ControlBound that a program can hold, with a control of the declared
  dimension and an output buffer of the output dimension, \<open>Evaluate\<close> returns the rows
  \<open>lb_j - u_j\<close> for the finite lower bounds followed by the rows \<open>u_j - ub_j\<close> for the
  finite upper bounds. Every row is at most 0, which is membership of the output in
  the NegativeOrthant cone, exactly when every finite lower bound is at most its
  control component and every control component is at most its finite upper bound.
  When every component of the control is a finite double, this is the chain
  \<open>lb_j \<le> u_j \<le> ub_j\<close> at every coordinate that has a finite bound.
\<close>

theorem ControlBound_Evaluate_feasibility:
  assumes r: "ControlBound_reachable cb"
    and lu: "int (length u) = m_cb cb"
    and lc: "int (length c) = ControlBound_OutputDimension cb"
  shows "\<exists>out. ControlBound_Evaluate cb u c = Inr out \<and>
           out = map (\<lambda>j. dsub (lower_bound cb ! j) (u ! j)) (index_lower_bound cb) @
                 map (\<lambda>j. dsub (u ! j) (upper_bound cb ! j)) (index_upper_bound cb) \<and>
           index_lower_bound cb = GetFiniteIndices (lower_bound cb) \<and>
           index_upper_bound cb = GetFiniteIndices (upper_bound cb) \<and>
           ((\<forall>y \<in> set out. dle y (Fin 0)) \<longleftrightarrow>
              (\<forall>j \<in> set (index_lower_bound cb). dle (lower_bound cb ! j) (u ! j)) \<and>
              (\<forall>j \<in> set (index_upper_bound cb). dle (u ! j) (upper_bound cb ! j))) \<and>
           (cone_member NegativeOrthant out \<longleftrightarrow> (\<forall>y \<in> set out. dle y (Fin 0))) \<and>
           ((\<forall>j < length u. \<exists>k. u ! j = Fin k \<and> \<bar>k\<bar> \<le> DBL_MAX_units) \<longrightarrow>
              ((\<forall>y \<in> set out. dle y (Fin 0)) \<longleftrightarrow>
                 (\<forall>j \<in> set (index_lower_bound cb) \<union> set (index_upper_bound cb).
                    dle (lower_bound cb ! j) (u ! j) \<and> dle (u ! j) (upper_bound cb ! j))))"
proof -
  from r have v: "ControlBound_valid cb" by (rule ControlBound_reachable_valid)
  let ?out = "map (\<lambda>j. dsub (lower_bound cb ! j) (u ! j)) (index_lower_bound cb) @
              map (\<lambda>j. dsub (u ! j) (upper_bound cb ! j)) (index_upper_bound cb)"
  have ev: "ControlBound_Evaluate cb u c = Inr ?out"
    using v lu lc by (rule ControlBound_Evaluate_eq)
  have sign: "(\<forall>y \<in> set ?out. dle y (Fin 0)) \<longleftrightarrow>
              (\<forall>j \<in> set (index_lower_bound cb). dle (lower_bound cb ! j) (u ! j)) \<and>
              (\<forall>j \<in> set (index_upper_bound cb). dle (u ! j) (upper_bound cb ! j))"
    using v by (rule ControlBound_rows_nonpositive_iff)
  have idx: "index_lower_bound cb = GetFiniteIndices (lower_bound cb)"
    "index_upper_bound cb = GetFiniteIndices (upper_bound cb)"
    using v by (simp_all add: ControlBound_valid_def)
  have member: "cone_member NegativeOrthant ?out \<longleftrightarrow> (\<forall>y \<in> set ?out. dle y (Fin 0))"
    by (rule cone_member_NegativeOrthant)
  have chain: "(\<forall>j < length u. \<exists>k. u ! j = Fin k \<and> \<bar>k\<bar> \<le> DBL_MAX_units) \<longrightarrow>
      ((\<forall>y \<in> set ?out. dle y (Fin 0)) \<longleftrightarrow>
         (\<forall>j \<in> set (index_lower_bound cb) \<union> set (index_upper_bound cb).
            dle (lower_bound cb ! j) (u ! j) \<and> dle (u ! j) (upper_bound cb ! j)))"
  proof
    assume "\<forall>j < length u. \<exists>k. u ! j = Fin k \<and> \<bar>k\<bar> \<le> DBL_MAX_units"
    from ControlBound_finite_control_feasibility [OF v lu this] sign
    show "(\<forall>y \<in> set ?out. dle y (Fin 0)) \<longleftrightarrow>
         (\<forall>j \<in> set (index_lower_bound cb) \<union> set (index_upper_bound cb).
            dle (lower_bound cb ! j) (u ! j) \<and> dle (u ! j) (upper_bound cb ! j))"
      by (rule trans [rotated])
  qed
  show ?thesis
    by (rule exI [of _ ?out]) (intro conjI ev refl idx sign member chain)
qed

theorem ControlBound_Evaluate_feasibility_witness:
  "ControlBound_reachable
     \<lparr>m_cb = 2, lower_bound = [dbl (- 2), NegInf], upper_bound = [dbl 2, dbl 3],
      index_lower_bound = [0], index_upper_bound = [0, 1]\<rparr> \<and>
   ControlBound_Evaluate
     \<lparr>m_cb = 2, lower_bound = [dbl (- 2), NegInf], upper_bound = [dbl 2, dbl 3],
      index_lower_bound = [0], index_upper_bound = [0, 1]\<rparr>
     [dbl 1, dbl 1] [Fin 0, Fin 0, Fin 0] = Inr [dbl (- 3), dbl (- 1), dbl (- 2)] \<and>
   cone_member NegativeOrthant [dbl (- 3), dbl (- 1), dbl (- 2)] \<and>
   dless (std_abs (dbl 1)) numeric_limits_max \<and>
   dle (dbl (- 2)) (dbl 1) \<and> dle (dbl 1) (dbl 2) \<and>
   dle NegInf (dbl 1) \<and> dle (dbl 1) (dbl 3)"
proof -
  let ?cb = "\<lparr>m_cb = 2, lower_bound = [dbl (- 2), NegInf], upper_bound = [dbl 2, dbl 3],
              index_lower_bound = [0], index_upper_bound = [0, 1]\<rparr>"
  let ?u = "[dbl 1, dbl 1]"
  have r: "ControlBound_reachable ?cb"
    using ControlBound_bounds_example by (rule from_bounds)
  have lu: "int (length ?u) = m_cb ?cb" by simp
  have lc: "int (length [Fin 0, Fin 0, Fin 0]) = ControlBound_OutputDimension ?cb"
    by (simp add: ControlBound_OutputDimension_def)
  have fin: "\<forall>j < length ?u. \<exists>k. ?u ! j = Fin k \<and> \<bar>k\<bar> \<le> DBL_MAX_units"
    using dbl_in_range [of 1] by (simp add: less_Suc_eq numeral_2_eq_2)
  from ControlBound_Evaluate_feasibility [OF r lu lc]
  obtain out where ev: "ControlBound_Evaluate ?cb ?u [Fin 0, Fin 0, Fin 0] = Inr out"
    and rows: "out = map (\<lambda>j. dsub (lower_bound ?cb ! j) (?u ! j)) (index_lower_bound ?cb) @
                    map (\<lambda>j. dsub (?u ! j) (upper_bound ?cb ! j)) (index_upper_bound ?cb)"
    and member: "cone_member NegativeOrthant out \<longleftrightarrow> (\<forall>y \<in> set out. dle y (Fin 0))"
    and chain: "(\<forall>j < length ?u. \<exists>k. ?u ! j = Fin k \<and> \<bar>k\<bar> \<le> DBL_MAX_units) \<longrightarrow>
         ((\<forall>y \<in> set out. dle y (Fin 0)) \<longleftrightarrow>
            (\<forall>j \<in> set (index_lower_bound ?cb) \<union> set (index_upper_bound ?cb).
               dle (lower_bound ?cb ! j) (?u ! j) \<and> dle (?u ! j) (upper_bound ?cb ! j)))"
    by blast
  from rows have out: "out = [dbl (- 3), dbl (- 1), dbl (- 2)]"
    by (simp add: dsub_dbl)
  have neg: "\<forall>y \<in> set out. dle y (Fin 0)"
    by (simp add: out dbl_def)
  with member have cm: "cone_member NegativeOrthant out" by simp
  from chain fin neg
  have "\<forall>j \<in> set (index_lower_bound ?cb) \<union> set (index_upper_bound ?cb).
          dle (lower_bound ?cb ! j) (?u ! j) \<and> dle (?u ! j) (upper_bound ?cb ! j)"
    by blast
  then have ch: "\<forall>j \<in> {0, 1}. dle ([dbl (- 2), NegInf] ! j) (?u ! j) \<and>
                   dle (?u ! j) ([dbl 2, dbl 3] ! j)"
    by simp
  have fin1: "dless (std_abs (dbl 1)) numeric_limits_max" by (simp add: finite_dbl)
  from ch have "dle (dbl (- 2)) (dbl 1) \<and> dle (dbl 1) (dbl 2) \<and>
                dle NegInf (dbl 1) \<and> dle (dbl 1) (dbl 3)"
    by simp
  with r ev cm fin1 show ?thesis unfolding out by blast
qed

text \<open>
  Without the restriction to finite controls the chain of C9 fails: a bound of
  magnitude \<open>DBL_MAX\<close> gets no row. \<open>ControlBound({5}, {DBL_MAX})\<close> is built with the one
  row of its lower bound; on the control \<open>(+inf)\<close> the output is \<open>(-inf)\<close>, which lies in
  the cone, and \<open>5 \<le> +inf\<close> holds, but \<open>+inf \<le> DBL_MAX\<close> does not.
\<close>

theorem ControlBound_Evaluate_chain_counterexample:
  "ControlBound_bounds [dbl 5] [numeric_limits_max] =
     Inr \<lparr>m_cb = 1, lower_bound = [dbl 5], upper_bound = [numeric_limits_max],
          index_lower_bound = [0], index_upper_bound = []\<rparr> \<and>
   ControlBound_Evaluate
     \<lparr>m_cb = 1, lower_bound = [dbl 5], upper_bound = [numeric_limits_max],
      index_lower_bound = [0], index_upper_bound = []\<rparr> [PosInf] [Fin 0] = Inr [NegInf] \<and>
   dle ([NegInf] ! 0) (Fin 0) \<and>
   cone_member NegativeOrthant [NegInf] \<and>
   dle (dbl 5) ([PosInf] ! 0) \<and>
   \<not> dle ([PosInf] ! 0) ([numeric_limits_max] ! 0)"
proof -
  let ?cb = "\<lparr>m_cb = 1, lower_bound = [dbl 5], upper_bound = [numeric_limits_max],
              index_lower_bound = [0], index_upper_bound = []\<rparr>"
  have ev: "ControlBound_Evaluate ?cb [PosInf] [Fin 0] = Inr [NegInf]"
    by (simp add: ControlBound_Evaluate_def ALTRO_ASSERT_def Evaluate_lower_loop.simps
          Evaluate_upper_loop.simps dbl_def)
  have member: "cone_member NegativeOrthant [NegInf]"
    by (simp add: cone_member_NegativeOrthant)
  have chain: "dle (dbl 5) ([PosInf] ! 0)" "\<not> dle ([PosInf] ! 0) ([numeric_limits_max] ! 0)"
    by (simp_all add: numeric_limits_max_def)
  from ControlBound_bounds_max_example ev member chain show ?thesis by simp
qed

section \<open>Properties of Problem\<close>

lemma knots_defined_iff:
  "knots_defined n p \<longleftrightarrow> (\<forall>k < n. models p k \<noteq> None \<and> costfuns p k \<noteq> None)"
  by (induction n) (auto simp: less_Suc_eq)





lemma test_ubnd_built: "ControlBound_bounds [dbl (- 2), dbl (- 3)] [dbl 2, dbl 3] = Inr test_ubnd"
  by (simp add: ControlBound_bounds_def ALTRO_ASSERT_def Let_def ValidateBounds_def
        ValidateBounds_loop.simps GetFiniteIndices_def GetFiniteIndices_loop.simps finite_dbl
        test_ubnd_def)

text \<open>
  C3. \<open>IsFullyDefined\<close> holds exactly when every knot below \<open>N\<close> has a dynamics and a
  cost, knot \<open>N\<close> has a cost, and the initial state has the state dimension that the
  dynamics at knot 0 declares. After \<open>SetInitialState\<close> with a vector of another length
  it returns false.
\<close>

theorem IsFullyDefined_iff:
  "(IsFullyDefined p \<longleftrightarrow>
      (\<forall>k < NumSegments p. models p k \<noteq> None \<and> costfuns p k \<noteq> None) \<and>
      costfuns p (NumSegments p) \<noteq> None \<and>
      (\<exists>model. models p 0 = Some model \<and>
         int (length (initial_state p)) = StateDimension model)) \<and>
   (models p 0 = Some model \<and> int (length x0) \<noteq> StateDimension model \<longrightarrow>
      \<not> IsFullyDefined (SetInitialState x0 p))"
  by (auto simp: IsFullyDefined_def knots_defined_iff SetInitialState_def split: option.splits)

theorem IsFullyDefined_iff_witness:
  "\<exists>p. FullyDefined_setup = Inr p \<and>
     models p 0 = Some \<lparr>StateDimension = 6, ControlDimension = 2\<rparr> \<and>
     \<not> IsFullyDefined p \<and>
     IsFullyDefined (SetInitialState (replicate 6 (Fin 0)) p) \<and>
     \<not> IsFullyDefined (SetInitialState (replicate 7 (Fin 0)) p)"
proof -
  let ?model = "\<lparr>StateDimension = 6, ControlDimension = 2\<rparr>"
  obtain p where p: "FullyDefined_setup = Inr p"
    and mo: "models p = ((\<lambda>k. None)(0 := Some ?model, 1 := Some ?model))"
    and co: "costfuns p = ((\<lambda>k. None)(0 := Some (), 1 := Some (), 2 := Some ()))"
    and n: "NumSegments p = 2" and x: "initial_state p = []"
    by (simp add: FullyDefined_setup_def and_then_def SetDynamics_def SetCostFunction_def
          ALTRO_ASSERT_def Problem_new_def Let_def)
  let ?good = "SetInitialState (replicate 6 (Fin 0)) p"
  have m0: "models p 0 = Some ?model" by (simp add: mo)
  have "\<forall>k < NumSegments ?good. models ?good k \<noteq> None \<and> costfuns ?good k \<noteq> None"
    by (simp add: SetInitialState_def n mo co less_Suc_eq numeral_2_eq_2)
  with IsFullyDefined_iff [of ?good ?model "[]"]
  have good: "IsFullyDefined ?good"
    by (simp add: SetInitialState_def n mo co)
  from IsFullyDefined_iff [of p ?model "replicate 7 (Fin 0)"] m0
  have bad: "\<not> IsFullyDefined (SetInitialState (replicate 7 (Fin 0)) p)" by simp
  from IsFullyDefined_iff [of p ?model "[]"] m0 x
  have unset: "\<not> IsFullyDefined p" by simp
  from p m0 unset good bad show ?thesis by blast
qed



text \<open>
  C8. \<open>SetConstraint\<close> with a null handle fails, at every knot and for both constraint
  kinds; the failed call returns no Problem, so the one the caller holds is as it was.
\<close>

theorem SetConstraint_rejects_null:
  "SetConstraint (EqualityPtr None) k p =
     Inl (AssertionFailure ''provide a valid constraint pointer'') \<and>
   SetConstraint (InequalityPtr None) k p =
     Inl (AssertionFailure ''provide a valid constraint pointer'')"
  by (simp add: SetConstraint_def)

text \<open>
  C10. \<open>SetConstraint\<close> fails on a constraint of output dimension zero, such as the
  ControlBound built from a control dimension alone; a call that returns has
  registered a constraint of positive output dimension.
\<close>

theorem SetConstraint_rejects_empty:
  "(deref con = Some c \<and> OutputDimension c = 0 \<longrightarrow>
      (\<exists>msg. SetConstraint con k p = Inl (AssertionFailure msg))) \<and>
   (ControlBound_dim m = Inr cb \<longrightarrow>
      ControlBound_OutputDimension cb = 0 \<and>
      (\<exists>msg. SetConstraint (InequalityPtr (Some cb)) k p = Inl (AssertionFailure msg))) \<and>
   (SetConstraint con' k' p = Inr p' \<longrightarrow> (\<exists>c'. deref con' = Some c' \<and> 0 < OutputDimension c'))"
  by (auto simp: SetConstraint_def ALTRO_ASSERT_def ControlBound_dim_def
        ControlBound_OutputDimension_def split: option.splits if_splits)

theorem SetConstraint_rejects_empty_witness:
  "(\<exists>cb. ControlBound_dim 2 = Inr cb \<and> ControlBound_OutputDimension cb = 0 \<and>
         deref (InequalityPtr (Some cb)) = Some (Inequality cb) \<and>
         SetConstraint (InequalityPtr (Some cb)) 0 (Problem_new 10 :: unit Problem) =
           Inl (AssertionFailure ''length greater than zero'')) \<and>
   (\<exists>p'. SetConstraint (InequalityPtr (Some test_ubnd)) 0 (Problem_new 10 :: unit Problem) = Inr p' \<and>
         0 < OutputDimension (Inequality test_ubnd))"
proof -
  obtain cb where cb: "ControlBound_dim 2 = Inr cb" by (simp add: ControlBound_dim_def)
  obtain p' :: "unit Problem"
    where p': "SetConstraint (InequalityPtr (Some test_ubnd)) 0 (Problem_new 10) = Inr p'"
    by (simp add: SetConstraint_def ALTRO_ASSERT_def Problem_new_def test_ubnd_def
          ControlBound_OutputDimension_def)
  from SetConstraint_rejects_empty [of "InequalityPtr (Some cb)" "Inequality cb" 0
      "Problem_new 10 :: unit Problem" 2 cb "InequalityPtr (Some test_ubnd)" 0 p'] cb p'
  have zero: "ControlBound_OutputDimension cb = 0"
    and pos: "0 < OutputDimension (Inequality test_ubnd)"
    by auto
  from zero have "SetConstraint (InequalityPtr (Some cb)) 0 (Problem_new 10 :: unit Problem) =
      Inl (AssertionFailure ''length greater than zero'')"
    by (simp add: SetConstraint_def ALTRO_ASSERT_def Problem_new_def)
  with cb zero pos p' show ?thesis by auto
qed

end
